theory Spec2Isabelle
  imports Main
begin

section \<open>Python values used by \<^verbatim>\<open>utils.py\<close>\<close>

text \<open>
  Exceptions are values. One constructor stands for each exception class that
  \<^verbatim>\<open>utils.py\<close> names in an \<^verbatim>\<open>except\<close> clause or that a library call of the modelled
  code raises; a constructor means "an instance of this class (or of a subclass of it) that
  is an instance of none of the classes listed before it". \<open>UnicodeError\<close> is a subclass of
  Python's \<open>ValueError\<close>, so \<open>ValueError\<close> below means a \<open>ValueError\<close> that is not a
  \<open>UnicodeError\<close>. \<open>OtherException\<close> carries the class name of anything else
  (\<open>RuntimeError\<close>, \<open>KeyError\<close>, ...).
\<close>

datatype exn =
    TimeoutError
  | HTTPError
  | ClientError
  | UnicodeError
  | CancelledError
  | ValueError
  | OtherException string

text \<open>
  Python strings are modelled as \<^typ>\<open>string\<close>, one \<^typ>\<open>char\<close> per code point (code
  points below 256). A \<^verbatim>\<open>dict\<close> is an association list in insertion order, since
  \<^verbatim>\<open>utils.py\<close> iterates over dictionaries.
\<close>

subsection \<open>String methods\<close>

text \<open>\<^verbatim>\<open>s.startswith(p)\<close>\<close>

fun startswith :: "string \<Rightarrow> string \<Rightarrow> bool" where
  "startswith s [] = True"
| "startswith [] (p # ps) = False"
| "startswith (c # cs) (p # ps) = (c = p \<and> startswith cs ps)"

text \<open>\<^verbatim>\<open>sub in s\<close> for strings: \<open>sub\<close> occurs in \<open>s\<close> as a contiguous substring.\<close>

fun str_contains :: "string \<Rightarrow> string \<Rightarrow> bool" where
  "str_contains [] sub = (sub = [])"
| "str_contains (c # cs) sub = (startswith (c # cs) sub \<or> str_contains cs sub)"

text \<open>
  \<^verbatim>\<open>s.replace(old, new)\<close>: scanning from the left, every occurrence of \<open>old\<close> that does
  not overlap an occurrence already replaced is replaced by \<open>new\<close>. For an empty \<open>old\<close>
  Python puts \<open>new\<close> before every character and at the end.
\<close>

function replace_nonempty :: "string \<Rightarrow> string \<Rightarrow> string \<Rightarrow> string" where
  "replace_nonempty old new [] = []"
| "replace_nonempty old new (c # cs) =
     (if old \<noteq> [] \<and> startswith (c # cs) old
      then new @ replace_nonempty old new (drop (length old) (c # cs))
      else c # replace_nonempty old new cs)"
  by pat_completeness auto
termination
  by (relation "measure (\<lambda>(old, new, s). length s)") auto

declare replace_nonempty.simps [simp del]

definition str_replace :: "string \<Rightarrow> string \<Rightarrow> string \<Rightarrow> string" where
  "str_replace s old new =
     (if old = [] then new @ concat (map (\<lambda>c. c # new) s)
      else replace_nonempty old new s)"

text \<open>\<^verbatim>\<open>sep.join(parts)\<close>\<close>

fun str_join :: "string \<Rightarrow> string list \<Rightarrow> string" where
  "str_join sep [] = []"
| "str_join sep [p] = p"
| "str_join sep (p # q # ps) = p @ sep @ str_join sep (q # ps)"

section \<open>Data model\<close>

text \<open>
  Modelled from the spec: the classes \<^verbatim>\<open>RepoData\<close>, \<^verbatim>\<open>MirrorData\<close> and \<^verbatim>\<open>MainConfig\<close> of
  \<^verbatim>\<open>data_models.py\<close>, which \<^verbatim>\<open>utils.py\<close> imports and which is not among the sources. The
  fields are those that \<^verbatim>\<open>process_main_config\<close> and \<^verbatim>\<open>process_mirror_config\<close> pass
  to the constructors and that \<^verbatim>\<open>mirror_available\<close> reads, with the types of the
  specification's data model (section 3). Fields that \<^verbatim>\<open>mirror_available\<close> never reads
  (sponsor, e-mail, subnets, geolocation, \<^verbatim>\<open>allowed_outdate\<close>, \<^verbatim>\<open>vault_versions\<close>, ...) are
  left out.
\<close>

record RepoData =
  name :: string
  path :: string
  arches :: "string list"
  versions :: "string list"
  vault :: bool

record MirrorData =
  name :: string
  urls :: "(string \<times> string) list"
  cloud_type :: string
  is_private :: bool

record MainConfig =
  versions :: "string list"
  duplicated_versions :: "(string \<times> string) list"
  arches :: "string list"
  versions_arches :: "(string \<times> string list) list"
  required_protocols :: "string list"
  repos :: "RepoData list"

subsection \<open>Module constants\<close>

text \<open>
  One entry of \<^verbatim>\<open>WHITELIST_MIRRORS_PER_ARCH_REPO\<close>: a dictionary with the two keys
  \<^verbatim>\<open>'arches'\<close> and \<^verbatim>\<open>'repos'\<close>.
\<close>

record WhitelistEntry =
  arches :: "string list"
  repos :: "string list"

text \<open>
  The module-level constants that the availability check can see. They are passed to the
  check explicitly, so that a statement can say which of them the check reads.
\<close>

record Globals =
  WHITELIST_MIRRORS :: "string list"
  WHITELIST_MIRRORS_PER_ARCH_REPO :: "(string \<times> WhitelistEntry) list"

definition azure_entry :: WhitelistEntry where
  "azure_entry =
     \<lparr> WhitelistEntry.arches = [''x86_64'', ''aarch64''],
       WhitelistEntry.repos =
         [''AppStream'', ''BaseOS'', ''HighAvailability'', ''NFV'', ''PowerTools'', ''RT'',
          ''ResilientStorage'', ''devel'', ''extras'', ''plus''] \<rparr>"

text \<open>The constants as \<^verbatim>\<open>utils.py\<close> declares them (the four entries are equal).\<close>

definition module_globals :: Globals where
  "module_globals =
     \<lparr> WHITELIST_MIRRORS = [''repo.almalinux.org''],
       WHITELIST_MIRRORS_PER_ARCH_REPO =
         [(''eastus.azure.repo.almalinux.org'', azure_entry),
          (''germanywestcentral.azure.repo.almalinux.org'', azure_entry),
          (''southeastasia.azure.repo.almalinux.org'', azure_entry),
          (''westus2.azure.repo.almalinux.org'', azure_entry)] \<rparr>"

section \<open>Selecting the base URL of a mirror\<close>

text \<open>
  \<^verbatim>\<open>next(address for protocol_type, address in urls.items()
       if protocol_type in main_config.required_protocols)\<close>
  The generator walks the items of the mirror's \<^verbatim>\<open>urls\<close> dictionary in the dictionary's
  order; \<open>None\<close> is \<^verbatim>\<open>StopIteration\<close>.
\<close>

fun next_address :: "(string \<times> string) list \<Rightarrow> string list \<Rightarrow> string option" where
  "next_address [] required = None"
| "next_address ((protocol_type, address) # items) required =
     (if protocol_type \<in> set required then Some address
      else next_address items required)"

text \<open>
  The selection as the specification words it: go through \<open>requiredProtocols\<close> in its
  declared order and take the URL of the first protocol for which the mirror has one.
  Used only to compare with \<^const>\<open>next_address\<close>.
\<close>

fun spec_preferred_address :: "(string \<times> string) list \<Rightarrow> string list \<Rightarrow> string option" where
  "spec_preferred_address items [] = None"
| "spec_preferred_address items (protocol # required) =
     (case map_of items protocol of
        Some address \<Rightarrow> Some address
      | None \<Rightarrow> spec_preferred_address items required)"

section \<open>The availability prober\<close>

text \<open>
  What the prober sees of an \<^verbatim>\<open>aiohttp\<close> response: the outcome of
  \<^verbatim>\<open>await response.text()\<close>, the decoded body or the exception raised while reading or
  decoding it.
\<close>

record Response =
  response_text :: "exn + string"

text \<open>
  \<^verbatim>\<open>http_session.request(method, url, headers)\<close> returns a response or raises; the
  arguments are the method name, the URL and the headers. The session
  is the caller's: which transport failures and which HTTP status codes make it raise, and
  with which class, is its configuration. Cancellation of the probe's task shows up as
  \<open>CancelledError\<close> raised by whichever \<^verbatim>\<open>await\<close> the probe is suspended in.
\<close>

type_synonym ClientSession = "string \<Rightarrow> string \<Rightarrow> (string \<times> string) list \<Rightarrow> exn + Response"

definition HEADERS :: "(string \<times> string) list" where
  "HEADERS =
     [(''User-Agent'', ''Mozilla/5.0 (Windows NT 6.1; WOW64) AppleWebKit/537.36 (KHTML, like Gecko) Chrome/56.0.2924.76 Safari/537.36''),
      (''Upgrade-Insecure-Requests'', ''1''),
      (''DNT'', ''1''),
      (''Accept'', ''text/html,application/xhtml+xml,application/xml;q=0.9,*/*;q=0.8''),
      (''Accept-Language'', ''en-US,en;q=0.5''),
      (''Accept-Encoding'', ''gzip, deflate'')]"

text \<open>
  The body of the \<^verbatim>\<open>try\<close> block of \<^verbatim>\<open>is_url_available\<close>: \<open>Inr True\<close> when it reaches
  \<^verbatim>\<open>return True\<close>, \<open>Inl err\<close> when \<open>err\<close> is raised inside it. The calls to the logger
  are not modelled: they return nothing and the function's result does not depend on them.
\<close>

definition try_block :: "string \<Rightarrow> ClientSession \<Rightarrow> bool \<Rightarrow> exn + bool" where
  "try_block url http_session is_get_request =
     (let method = (if is_get_request then ''get'' else ''head'') in
      case http_session method url HEADERS of
        Inl err \<Rightarrow> Inl err
      | Inr response \<Rightarrow>
          (if is_get_request
           then (case response_text response of
                   Inl err \<Rightarrow> Inl err
                 | Inr body \<Rightarrow> Inr True)
           else Inr True))"

text \<open>The \<^verbatim>\<open>try\<close> statement with its two \<^verbatim>\<open>except\<close> clauses.\<close>

definition is_url_available :: "string \<Rightarrow> ClientSession \<Rightarrow> bool \<Rightarrow> exn + bool" where
  "is_url_available url http_session is_get_request =
     (case try_block url http_session is_get_request of
        Inr returned \<Rightarrow> Inr returned
      | Inl err \<Rightarrow>
          (if err \<in> {TimeoutError, HTTPError, ClientError, UnicodeError} then Inr False
           else if err = CancelledError then Inr False
           else Inl err))"

section \<open>\<^verbatim>\<open>urllib.parse.urljoin\<close>\<close>

text \<open>
  \<^verbatim>\<open>mirror_available\<close> builds every URL with the standard library's \<^verbatim>\<open>urljoin\<close>. The
  definitions of this section follow \<^verbatim>\<open>urllib/parse.py\<close> of CPython 3.11 function by
  function, for \<^verbatim>\<open>str\<close> arguments and \<^verbatim>\<open>allow_fragments=True\<close>. Two validations of
  \<^verbatim>\<open>urlsplit\<close> that can only raise \<open>ValueError\<close> and never change a result are not
  modelled: \<^verbatim>\<open>_check_bracketed_host\<close> (the text between \<open>[\<close> and \<open>]\<close> in the authority must be an
  IPv6 or IPvFuture address) and \<^verbatim>\<open>_checknetloc\<close> (an authority with characters beyond ASCII
  must not produce \<open>/ ? # @ :\<close> under NFKC normalisation, which no code point below 256
  does). So where CPython returns a URL the model returns the same URL, and the model
  raises \<open>ValueError\<close> where CPython does for an authority with an unmatched bracket.
\<close>

definition uses_relative :: "string list" where
  "uses_relative =
     ['''', ''ftp'', ''http'', ''gopher'', ''nntp'', ''imap'', ''wais'', ''file'', ''https'',
      ''shttp'', ''mms'', ''prospero'', ''rtsp'', ''rtsps'', ''rtspu'', ''sftp'', ''svn'',
      ''svn+ssh'', ''ws'', ''wss'']"

definition uses_netloc :: "string list" where
  "uses_netloc =
     ['''', ''ftp'', ''http'', ''gopher'', ''nntp'', ''telnet'', ''imap'', ''wais'', ''file'',
      ''mms'', ''https'', ''shttp'', ''snews'', ''prospero'', ''rtsp'', ''rtsps'', ''rtspu'',
      ''rsync'', ''svn'', ''svn+ssh'', ''sftp'', ''nfs'', ''git'', ''git+ssh'', ''ws'', ''wss'']"

definition uses_params :: "string list" where
  "uses_params =
     ['''', ''ftp'', ''hdl'', ''prospero'', ''http'', ''imap'', ''https'', ''shttp'', ''rtsp'',
      ''rtsps'', ''rtspu'', ''sip'', ''sips'', ''mms'', ''sftp'', ''tel'']"

definition scheme_chars :: string where
  "scheme_chars = ''abcdefghijklmnopqrstuvwxyzABCDEFGHIJKLMNOPQRSTUVWXYZ0123456789+-.''"

text \<open>\<^verbatim>\<open>c.isascii() and c.isalpha()\<close>\<close>

definition ascii_alpha :: "char \<Rightarrow> bool" where
  "ascii_alpha c = (c \<in> set ''abcdefghijklmnopqrstuvwxyzABCDEFGHIJKLMNOPQRSTUVWXYZ'')"

text \<open>\<^verbatim>\<open>s.lower()\<close>, used on strings of \<^const>\<open>scheme_chars\<close> only.\<close>

definition ascii_lower :: "string \<Rightarrow> string" where
  "ascii_lower s =
     map (\<lambda>c. if c \<in> set ''ABCDEFGHIJKLMNOPQRSTUVWXYZ''
               then char_of (of_char c + (32::nat)) else c) s"

text \<open>Membership in \<^verbatim>\<open>_WHATWG_C0_CONTROL_OR_SPACE\<close>: the code points 0 to 32.\<close>

definition c0_control_or_space :: "char \<Rightarrow> bool" where
  "c0_control_or_space c = (of_char c \<le> (32::nat))"

text \<open>Removing \<^verbatim>\<open>_UNSAFE_URL_BYTES_TO_REMOVE\<close>: tab, carriage return, line feed.\<close>

definition remove_unsafe :: "string \<Rightarrow> string" where
  "remove_unsafe s = filter (\<lambda>c. of_char c \<notin> {9::nat, 13, 10}) s"

text \<open>\<^verbatim>\<open>s.split(sep)\<close> for a separator of one character.\<close>

fun str_split :: "string \<Rightarrow> char \<Rightarrow> string list" where
  "str_split [] sep = [[]]"
| "str_split (c # cs) sep =
     (if c = sep then [] # str_split cs sep
      else (case str_split cs sep of
              [] \<Rightarrow> [[c]]
            | p # ps \<Rightarrow> (c # p) # ps))"

text \<open>
  \<^verbatim>\<open>s.split(sep, 1)\<close> for a separator that occurs in \<open>s\<close>: the parts around its first
  occurrence.
\<close>

definition split_once :: "string \<Rightarrow> char \<Rightarrow> string \<times> string" where
  "split_once s sep = (takeWhile (\<lambda>c. c \<noteq> sep) s, drop 1 (dropWhile (\<lambda>c. c \<noteq> sep) s))"

text \<open>\<^verbatim>\<open>_splitnetloc(url, 2)\<close>: the authority runs from index 2 to the first of \<open>/ ? #\<close>.\<close>

definition splitnetloc :: "string \<Rightarrow> string \<times> string" where
  "splitnetloc url =
     (takeWhile (\<lambda>c. c \<notin> set ''/?#'') (drop 2 url),
      dropWhile (\<lambda>c. c \<notin> set ''/?#'') (drop 2 url))"

definition urlsplit :: "string \<Rightarrow> string \<Rightarrow> exn + (string \<times> string \<times> string \<times> string \<times> string)" where
  "urlsplit url0 scheme0 =
     (let url1 = remove_unsafe (dropWhile c0_control_or_space url0);
          scheme1 = remove_unsafe
            (rev (dropWhile c0_control_or_space (rev (dropWhile c0_control_or_space scheme0))));
          i = length (takeWhile (\<lambda>c. c \<noteq> CHR '':'') url1);
          (scheme, url2) =
            (if CHR '':'' \<in> set url1 \<and> i > 0 \<and> ascii_alpha (hd url1)
                \<and> list_all (\<lambda>c. c \<in> set scheme_chars) (take i url1)
             then (ascii_lower (take i url1), drop (i + 1) url1)
             else (scheme1, url1));
          (netloc, url3) =
            (if take 2 url2 = ''//'' then splitnetloc url2 else ('''', url2))
      in if (CHR ''['' \<in> set netloc \<and> CHR '']'' \<notin> set netloc)
            \<or> (CHR '']'' \<in> set netloc \<and> CHR ''['' \<notin> set netloc)
         then Inl ValueError
         else
           (let (url4, fragment) =
                  (if CHR ''#'' \<in> set url3 then split_once url3 (CHR ''#'') else (url3, ''''));
                (url5, query) =
                  (if CHR ''?'' \<in> set url4 then split_once url4 (CHR ''?'') else (url4, ''''))
            in Inr (scheme, netloc, url5, query, fragment)))"

text \<open>\<^verbatim>\<open>_splitparams(url)\<close>: \<^verbatim>\<open>url.find(...)\<close> is \<open>-1\<close> when there is no \<open>;\<close>.\<close>

definition splitparams :: "string \<Rightarrow> string \<times> string" where
  "splitparams url =
     (if CHR ''/'' \<in> set url
      then (let k = length url - 1 - length (takeWhile (\<lambda>c. c \<noteq> CHR ''/'') (rev url));
                i = k + length (takeWhile (\<lambda>c. c \<noteq> CHR '';'') (drop k url))
            in if CHR '';'' \<notin> set (drop k url) then (url, '''')
               else (take i url, drop (i + 1) url))
      else (if CHR '';'' \<notin> set url then (butlast url, url)
            else (let i = length (takeWhile (\<lambda>c. c \<noteq> CHR '';'') url)
                  in (take i url, drop (i + 1) url))))"

definition urlparse ::
  "string \<Rightarrow> string \<Rightarrow> exn + (string \<times> string \<times> string \<times> string \<times> string \<times> string)" where
  "urlparse url0 scheme0 =
     (case urlsplit url0 scheme0 of
        Inl err \<Rightarrow> Inl err
      | Inr (scheme, netloc, url, query, fragment) \<Rightarrow>
          (let (url', params) =
                 (if scheme \<in> set uses_params \<and> CHR '';'' \<in> set url
                  then splitparams url else (url, ''''))
           in Inr (scheme, netloc, url', params, query, fragment)))"

definition urlunsplit :: "string \<times> string \<times> string \<times> string \<times> string \<Rightarrow> string" where
  "urlunsplit components =
     (case components of (scheme, netloc, url0, query, fragment) \<Rightarrow>
        (let url1 =
               (if netloc \<noteq> [] \<or> (scheme \<noteq> [] \<and> scheme \<in> set uses_netloc) \<or> take 2 url0 = ''//''
                then ''//'' @ netloc
                     @ (if url0 \<noteq> [] \<and> take 1 url0 \<noteq> ''/'' then ''/'' @ url0 else url0)
                else url0);
             url2 = (if scheme \<noteq> [] then scheme @ '':'' @ url1 else url1);
             url3 = (if query \<noteq> [] then url2 @ ''?'' @ query else url2)
         in if fragment \<noteq> [] then url3 @ ''#'' @ fragment else url3))"

definition urlunparse ::
  "string \<times> string \<times> string \<times> string \<times> string \<times> string \<Rightarrow> string" where
  "urlunparse components =
     (case components of (scheme, netloc, url, params, query, fragment) \<Rightarrow>
        urlunsplit (scheme, netloc, (if params \<noteq> [] then url @ '';'' @ params else url),
                    query, fragment))"

text \<open>
  The loop of \<^verbatim>\<open>urljoin\<close> that resolves \<open>.\<close> and \<open>..\<close>; \<^verbatim>\<open>resolved_path.pop()\<close> on an
  empty list raises \<open>IndexError\<close>, which the loop ignores.
\<close>

fun resolve_segments :: "string list \<Rightarrow> string list \<Rightarrow> string list" where
  "resolve_segments resolved_path [] = resolved_path"
| "resolve_segments resolved_path (seg # segments) =
     (if seg = ''..'' then resolve_segments (butlast resolved_path) segments
      else if seg = ''.'' then resolve_segments resolved_path segments
      else resolve_segments (resolved_path @ [seg]) segments)"

text \<open>\<^verbatim>\<open>segments[1:-1] = filter(None, segments[1:-1])\<close>\<close>

definition drop_empty_inner :: "string list \<Rightarrow> string list" where
  "drop_empty_inner segments =
     (if length segments < 2 then segments
      else hd segments # filter (\<lambda>seg. seg \<noteq> []) (butlast (tl segments)) @ [last segments])"

definition urljoin :: "string \<Rightarrow> string \<Rightarrow> exn + string" where
  "urljoin base url =
     (if base = [] then Inr url
      else if url = [] then Inr base
      else
        (case urlparse base '''' of
           Inl err \<Rightarrow> Inl err
         | Inr (bscheme, bnetloc, bpath, bparams, bquery, bfragment) \<Rightarrow>
        (case urlparse url bscheme of
           Inl err \<Rightarrow> Inl err
         | Inr (scheme, netloc, upath, params, query, fragment) \<Rightarrow>
             (if scheme \<noteq> bscheme \<or> scheme \<notin> set uses_relative then Inr url
              else if scheme \<in> set uses_netloc \<and> netloc \<noteq> []
              then Inr (urlunparse (scheme, netloc, upath, params, query, fragment))
              else
                (let netloc' = (if scheme \<in> set uses_netloc then bnetloc else netloc) in
                 if upath = [] \<and> params = []
                 then Inr (urlunparse (scheme, netloc', bpath, bparams,
                                       (if query = [] then bquery else query), fragment))
                 else
                   (let base_parts0 = str_split bpath (CHR ''/'');
                        base_parts =
                          (if last base_parts0 \<noteq> [] then butlast base_parts0 else base_parts0);
                        segments =
                          (if take 1 upath = ''/'' then str_split upath (CHR ''/'')
                           else drop_empty_inner (base_parts @ str_split upath (CHR ''/'')));
                        resolved0 = resolve_segments [] segments;
                        resolved_path =
                          (if last segments \<in> {''.'', ''..''} then resolved0 @ [''''] else resolved0);
                        joined = str_join ''/'' resolved_path
                    in Inr (urlunparse (scheme, netloc', (if joined = [] then ''/'' else joined),
                                        params, query, fragment))))))))"

section \<open>Enumerating the URLs to check\<close>

text \<open>
  \<^verbatim>\<open>d[key] = value\<close> on an insertion-ordered dictionary: an existing key keeps its position and
  gets the new value, a new key goes to the end.
\<close>

fun dict_set :: "('k \<times> 'v) list \<Rightarrow> 'k \<Rightarrow> 'v \<Rightarrow> ('k \<times> 'v) list" where
  "dict_set [] key val = [(key, val)]"
| "dict_set ((k, v) # d) key val =
     (if k = key then (k, val) # d else (k, v) # dict_set d key val)"

text \<open>The value stored for a URL: \<^verbatim>\<open>{'version': version, 'repo_path': repo_path}\<close>.\<close>

record UrlInfo =
  version :: string
  repo_path :: string

definition get_arches_for_version :: "string list \<Rightarrow> string list \<Rightarrow> string list" where
  "get_arches_for_version repo_arches global_arches =
     (if repo_arches \<noteq> [] then repo_arches else global_arches)"

definition is_permitted_arch_for_this_version_and_repo ::
  "string \<Rightarrow> string \<Rightarrow> (string \<times> string list) list \<Rightarrow> bool" where
  "is_permitted_arch_for_this_version_and_repo ver arch vers_arches =
     (case map_of vers_arches ver of
        None \<Rightarrow> True
      | Some permitted \<Rightarrow> (if arch \<in> set permitted then True else False))"

text \<open>
  \<^verbatim>\<open>mirror_info.name in WHITELIST_MIRRORS_PER_ARCH_REPO and
  repo_data.name not in WHITELIST_MIRRORS_PER_ARCH_REPO[mirror_info.name]['repos']\<close>
\<close>

definition repo_not_whitelisted :: "Globals \<Rightarrow> MirrorData \<Rightarrow> RepoData \<Rightarrow> bool" where
  "repo_not_whitelisted g mirror_info repo_data =
     (case map_of (WHITELIST_MIRRORS_PER_ARCH_REPO g) (MirrorData.name mirror_info) of
        None \<Rightarrow> False
      | Some entry \<Rightarrow> RepoData.name repo_data \<notin> set (WhitelistEntry.repos entry))"

text \<open>
  \<^verbatim>\<open>mirror_info.name in WHITELIST_MIRRORS_PER_ARCH_REPO and
  arch not in WHITELIST_MIRRORS_PER_ARCH_REPO[mirror_info.name]['arches']\<close>
\<close>

definition arch_not_whitelisted :: "Globals \<Rightarrow> MirrorData \<Rightarrow> string \<Rightarrow> bool" where
  "arch_not_whitelisted g mirror_info arch =
     (case map_of (WHITELIST_MIRRORS_PER_ARCH_REPO g) (MirrorData.name mirror_info) of
        None \<Rightarrow> False
      | Some entry \<Rightarrow> arch \<notin> set (WhitelistEntry.arches entry))"

text \<open>
  \<^verbatim>\<open>urljoin(urljoin(urljoin(mirror_url + '/', str(version)) + '/', repo_path) + '/',
          'repodata/repomd.xml')\<close>
\<close>

definition url_for_check :: "string \<Rightarrow> string \<Rightarrow> string \<Rightarrow> exn + string" where
  "url_for_check mirror_url ver rpath =
     (case urljoin (mirror_url @ ''/'') ver of
        Inl err \<Rightarrow> Inl err
      | Inr with_version \<Rightarrow>
          (case urljoin (with_version @ ''/'') rpath of
             Inl err \<Rightarrow> Inl err
           | Inr with_repo \<Rightarrow> urljoin (with_repo @ ''/'') ''repodata/repomd.xml''))"

text \<open>
  The three nested \<^verbatim>\<open>for\<close> loops of \<^verbatim>\<open>mirror_available\<close>, innermost first. Each takes the
  dictionary \<^verbatim>\<open>urls_for_checking\<close> built so far and returns it extended, or the exception
  that \<^verbatim>\<open>urljoin\<close> raised. A \<^verbatim>\<open>continue\<close> is the recursive call on the remaining items.
\<close>

fun arches_loop ::
  "Globals \<Rightarrow> MirrorData \<Rightarrow> MainConfig \<Rightarrow> string \<Rightarrow> string \<Rightarrow> RepoData \<Rightarrow> string list
     \<Rightarrow> (string \<times> UrlInfo) list \<Rightarrow> exn + (string \<times> UrlInfo) list" where
  "arches_loop g mirror_info main_config mirror_url ver repo_data [] urls_for_checking =
     Inr urls_for_checking"
| "arches_loop g mirror_info main_config mirror_url ver repo_data (arch # rest) urls_for_checking =
     (if arch_not_whitelisted g mirror_info arch
      then arches_loop g mirror_info main_config mirror_url ver repo_data rest urls_for_checking
      else if \<not> is_permitted_arch_for_this_version_and_repo ver arch (versions_arches main_config)
      then arches_loop g mirror_info main_config mirror_url ver repo_data rest urls_for_checking
      else
        (let rpath = str_replace (path repo_data) ''$basearch'' arch in
         case url_for_check mirror_url ver rpath of
           Inl err \<Rightarrow> Inl err
         | Inr check_url \<Rightarrow>
             arches_loop g mirror_info main_config mirror_url ver repo_data rest
               (dict_set urls_for_checking check_url \<lparr>version = ver, repo_path = rpath\<rparr>)))"

fun repos_loop ::
  "Globals \<Rightarrow> MirrorData \<Rightarrow> MainConfig \<Rightarrow> string \<Rightarrow> string \<Rightarrow> RepoData list
     \<Rightarrow> (string \<times> UrlInfo) list \<Rightarrow> exn + (string \<times> UrlInfo) list" where
  "repos_loop g mirror_info main_config mirror_url ver [] urls_for_checking =
     Inr urls_for_checking"
| "repos_loop g mirror_info main_config mirror_url ver (repo_data # rest) urls_for_checking =
     (if repo_not_whitelisted g mirror_info repo_data
      then repos_loop g mirror_info main_config mirror_url ver rest urls_for_checking
      else if vault repo_data
      then repos_loop g mirror_info main_config mirror_url ver rest urls_for_checking
      else
        (let arch_list = get_arches_for_version (RepoData.arches repo_data)
                           (MainConfig.arches main_config);
             repo_versions = RepoData.versions repo_data
         in if repo_versions \<noteq> [] \<and> ver \<notin> set repo_versions
            then repos_loop g mirror_info main_config mirror_url ver rest urls_for_checking
            else
              (case arches_loop g mirror_info main_config mirror_url ver repo_data arch_list
                      urls_for_checking of
                 Inl err \<Rightarrow> Inl err
               | Inr extended \<Rightarrow>
                   repos_loop g mirror_info main_config mirror_url ver rest extended)))"

fun versions_loop ::
  "Globals \<Rightarrow> MirrorData \<Rightarrow> MainConfig \<Rightarrow> string \<Rightarrow> string list
     \<Rightarrow> (string \<times> UrlInfo) list \<Rightarrow> exn + (string \<times> UrlInfo) list" where
  "versions_loop g mirror_info main_config mirror_url [] urls_for_checking =
     Inr urls_for_checking"
| "versions_loop g mirror_info main_config mirror_url (ver # rest) urls_for_checking =
     (if cloud_type mirror_info \<noteq> [] \<and> str_contains ver ''beta''
      then versions_loop g mirror_info main_config mirror_url rest urls_for_checking
      else if ver \<in> fst ` set (duplicated_versions main_config)
      then versions_loop g mirror_info main_config mirror_url rest urls_for_checking
      else
        (case repos_loop g mirror_info main_config mirror_url ver (MainConfig.repos main_config)
                urls_for_checking of
           Inl err \<Rightarrow> Inl err
         | Inr extended \<Rightarrow>
             versions_loop g mirror_info main_config mirror_url rest extended))"

text \<open>The dictionary \<^verbatim>\<open>urls_for_checking\<close> when the loops are done.\<close>

definition enumerate_urls ::
  "Globals \<Rightarrow> MirrorData \<Rightarrow> MainConfig \<Rightarrow> string \<Rightarrow> exn + (string \<times> UrlInfo) list" where
  "enumerate_urls g mirror_info main_config mirror_url =
     versions_loop g mirror_info main_config mirror_url (MainConfig.versions main_config) []"

section \<open>Waiting for the probes\<close>

text \<open>
  A task created by \<^verbatim>\<open>asyncio.ensure_future(is_url_available(...))\<close>: the URL it probes, the
  time (on the event loop's clock) at which the probe finishes if nobody cancels it, and the
  result of the probe, a returned boolean or a raised exception.
\<close>

record Task =
  task_url :: string
  done_at :: nat
  task_result :: "exn + bool"

text \<open>
  \<^verbatim>\<open>asyncio.wait(fs, return_when=FIRST_COMPLETED)\<close>: raises \<open>ValueError\<close> for an empty
  collection; otherwise suspends the caller until the first task finishes and returns the
  tasks done by then and the ones still pending. The done set is iterated in the order of
  the list.
\<close>

definition first_completion :: "Task list \<Rightarrow> nat" where
  "first_completion fs = Min (set (map done_at fs))"

definition asyncio_wait :: "Task list \<Rightarrow> exn + (Task list \<times> Task list)" where
  "asyncio_wait fs =
     (if fs = [] then Inl ValueError
      else Inr (filter (\<lambda>f. done_at f = first_completion fs) fs,
                filter (\<lambda>f. done_at f \<noteq> first_completion fs) fs))"

text \<open>
  What one run of \<^verbatim>\<open>_check_tasks\<close> did: its result (or the exception that left it), the
  URLs of the tasks it cancelled, and the times at which its calls of \<^verbatim>\<open>asyncio.wait\<close>
  returned, in order. It returns at the last of them.
\<close>

record CheckRun =
  outcome :: "exn + bool"
  cancelled :: "string list"
  woke_at :: "nat list"

text \<open>
  The loop \<^verbatim>\<open>for future in done_tasks: if not future.result(): ...; return False\<close>.
  \<open>Inr False\<close>: a result was false and the loop returns; \<open>Inr True\<close>: the loop ran to its
  end; \<open>Inl err\<close>: \<^verbatim>\<open>future.result()\<close> re-raised the exception of a probe.
\<close>

fun all_results_true :: "Task list \<Rightarrow> exn + bool" where
  "all_results_true [] = Inr True"
| "all_results_true (future # done_tasks) =
     (case task_result future of
        Inl err \<Rightarrow> Inl err
      | Inr result \<Rightarrow> (if \<not> result then Inr False else all_results_true done_tasks))"

function check_tasks :: "Task list \<Rightarrow> CheckRun" where
  "check_tasks created_tasks =
     (case asyncio_wait created_tasks of
        Inl err \<Rightarrow> \<lparr>outcome = Inl err, cancelled = [], woke_at = []\<rparr>
      | Inr (done_tasks, pending_tasks) \<Rightarrow>
          (case all_results_true done_tasks of
             Inl err \<Rightarrow>
               \<lparr>outcome = Inl err, cancelled = [], woke_at = [first_completion created_tasks]\<rparr>
           | Inr all_true \<Rightarrow>
               (if \<not> all_true
                then \<lparr>outcome = Inr False, cancelled = map task_url pending_tasks,
                      woke_at = [first_completion created_tasks]\<rparr>
                else if pending_tasks = []
                then \<lparr>outcome = Inr True, cancelled = [],
                      woke_at = [first_completion created_tasks]\<rparr>
                else
                  (let later = check_tasks pending_tasks
                   in later\<lparr>woke_at := first_completion created_tasks # woke_at later\<rparr>))))"
  by pat_completeness auto
termination
proof (relation "measure length")
  show "wf (measure length)" by simp
next
  fix created_tasks :: "Task list" and x2 done_tasks pending_tasks x2a
  assume w: "asyncio_wait created_tasks = Inr x2" and x2: "(done_tasks, pending_tasks) = x2"
  from w have ne: "created_tasks \<noteq> []" by (auto simp: asyncio_wait_def split: if_splits)
  then have "first_completion created_tasks \<in> set (map done_at created_tasks)"
    unfolding first_completion_def by (intro Min_in) auto
  then obtain f where f: "f \<in> set created_tasks" "done_at f = first_completion created_tasks"
    by auto
  from w x2 ne have "pending_tasks =
      filter (\<lambda>f. done_at f \<noteq> first_completion created_tasks) created_tasks"
    by (auto simp: asyncio_wait_def)
  with f have "length pending_tasks < length created_tasks"
    by (auto intro!: length_filter_less)
  then show "(pending_tasks, created_tasks) \<in> measure length" by simp
qed

declare check_tasks.simps [simp del]

section \<open>Checking one mirror\<close>

text \<open>
  What one call of \<^verbatim>\<open>mirror_available\<close> did: the pair it returned (or the exception that left
  it), the URLs for which it created a probe task, the URLs whose tasks it cancelled, and
  the times at which it was resumed from \<^verbatim>\<open>asyncio.wait\<close>.
\<close>

record Report =
  verdict :: "exn + (string \<times> bool)"
  probed :: "string list"
  cancelled_probes :: "string list"
  resumed_at :: "nat list"

text \<open>
  \<^verbatim>\<open>mirror_available(mirror_info, http_session, main_config, logger)\<close>. Besides the
  arguments of the source the model takes the module constants \<open>g\<close> and the event loop's
  timing \<open>finish\<close>, the time at which the probe of a URL finishes. Every probe is a GET
  (\<^verbatim>\<open>is_get_request=True\<close>). Logging is not modelled.
\<close>

definition mirror_available ::
  "Globals \<Rightarrow> (string \<Rightarrow> nat) \<Rightarrow> MirrorData \<Rightarrow> ClientSession \<Rightarrow> MainConfig \<Rightarrow> Report" where
  "mirror_available g finish mirror_info http_session main_config =
     (let mirror_name = MirrorData.name mirror_info in
      if is_private mirror_info
      then \<lparr>verdict = Inr (mirror_name, True), probed = [], cancelled_probes = [],
            resumed_at = []\<rparr>
      else
        (case next_address (urls mirror_info) (required_protocols main_config) of
           None \<Rightarrow>
             \<lparr>verdict = Inr (mirror_name, False), probed = [], cancelled_probes = [],
              resumed_at = []\<rparr>
         | Some mirror_url \<Rightarrow>
             (case enumerate_urls g mirror_info main_config mirror_url of
                Inl err \<Rightarrow>
                  \<lparr>verdict = Inl err, probed = [], cancelled_probes = [], resumed_at = []\<rparr>
              | Inr urls_for_checking \<Rightarrow>
                  (let tasks =
                         map (\<lambda>(check_url, url_info).
                                \<lparr>task_url = check_url, done_at = finish check_url,
                                 task_result = is_url_available check_url http_session True\<rparr>)
                             urls_for_checking;
                       run = check_tasks tasks
                   in \<lparr>verdict =
                          (case outcome run of
                             Inl err \<Rightarrow> Inl err
                           | Inr result \<Rightarrow>
                               (if \<not> result then Inr (mirror_name, False)
                                else Inr (mirror_name, True))),
                        probed = map task_url tasks,
                        cancelled_probes = cancelled run,
                        resumed_at = woke_at run\<rparr>))))"

section \<open>Example inputs\<close>

text \<open>
  The configuration of the specification's end-to-end example: one version, one
  architecture, one repository, \<open>https\<close> required, no duplicated versions and no
  per-version architecture lists.
\<close>

definition example_config :: MainConfig where
  "example_config =
     \<lparr> MainConfig.versions = [''8''],
       duplicated_versions = [],
       MainConfig.arches = [''x86_64''],
       versions_arches = [],
       required_protocols = [''https''],
       MainConfig.repos =
         [\<lparr> RepoData.name = ''BaseOS'', path = ''$basearch/os'', RepoData.arches = [],
             RepoData.versions = [], vault = False \<rparr>] \<rparr>"

definition example_mirror :: MirrorData where
  "example_mirror =
     \<lparr> MirrorData.name = ''mirror.example.org'',
       urls = [(''https'', ''https://example.org/almalinux'')],
       cloud_type = '''',
       is_private = False \<rparr>"

text \<open>A session whose every request succeeds with a readable body.\<close>

definition session_up :: ClientSession where
  "session_up method url headers = Inr \<lparr>response_text = Inr ''<repomd/>''\<rparr>"

text \<open>A session whose every request fails with a connection error.\<close>

definition session_down :: ClientSession where
  "session_down method url headers = Inl ClientError"

text \<open>A closed session: \<^verbatim>\<open>aiohttp\<close> raises \<open>RuntimeError\<close> on every request.\<close>

definition session_closed :: ClientSession where
  "session_closed method url headers = Inl (OtherException ''RuntimeError'')"

text \<open>
  One of the four mirrors of \<^verbatim>\<open>WHITELIST_MIRRORS_PER_ARCH_REPO\<close>, and a configuration
  with a repository (\<open>CRB\<close>) and an architecture (\<open>ppc64le\<close>) that the table does not list
  for it.
\<close>

definition azure_mirror :: MirrorData where
  "azure_mirror =
     \<lparr> MirrorData.name = ''eastus.azure.repo.almalinux.org'',
       urls = [(''https'', ''https://eastus.azure.repo.almalinux.org/almalinux'')],
       cloud_type = ''azure'',
       is_private = False \<rparr>"

definition wide_config :: MainConfig where
  "wide_config =
     \<lparr> MainConfig.versions = [''9''],
       duplicated_versions = [],
       MainConfig.arches = [''x86_64'', ''ppc64le''],
       versions_arches = [],
       required_protocols = [''https''],
       MainConfig.repos =
         [\<lparr> RepoData.name = ''BaseOS'', path = ''BaseOS/$basearch/os'', RepoData.arches = [],
             RepoData.versions = [], vault = False \<rparr>,
          \<lparr> RepoData.name = ''CRB'', path = ''CRB/$basearch/os'', RepoData.arches = [],
             RepoData.versions = [], vault = False \<rparr>] \<rparr>"

text \<open>
  The four URLs that \<^const>\<open>wide_config\<close> yields for \<^const>\<open>example_mirror\<close>, a session that
  times out on the third of them and raises \<open>RuntimeError\<close> on the fourth, and a timing in
  which the probes finish in the order second, third, fourth, first.
\<close>

definition url_baseos_x86_64 :: string where
  "url_baseos_x86_64 = ''https://example.org/almalinux/9/BaseOS/x86_64/os/repodata/repomd.xml''"

definition url_baseos_ppc64le :: string where
  "url_baseos_ppc64le = ''https://example.org/almalinux/9/BaseOS/ppc64le/os/repodata/repomd.xml''"

definition url_crb_x86_64 :: string where
  "url_crb_x86_64 = ''https://example.org/almalinux/9/CRB/x86_64/os/repodata/repomd.xml''"

definition url_crb_ppc64le :: string where
  "url_crb_ppc64le = ''https://example.org/almalinux/9/CRB/ppc64le/os/repodata/repomd.xml''"

definition session_mixed :: ClientSession where
  "session_mixed method url headers =
     (if url = url_crb_x86_64 then Inl TimeoutError
      else if url = url_crb_ppc64le then Inl (OtherException ''RuntimeError'')
      else Inr \<lparr>response_text = Inr ''<repomd/>''\<rparr>)"

definition arrival :: "string \<Rightarrow> nat" where
  "arrival url =
     (if url = url_baseos_ppc64le then 1
      else if url = url_crb_x86_64 then 2
      else if url = url_crb_ppc64le then 3
      else 4)"

section \<open>What the loop body emits\<close>

text \<open>
  The entry that the body of the innermost loop stores for one version, repository and
  architecture (lines 541-555): the key is the URL built for them, the value holds the
  version and the repository path with the architecture substituted. Used to state which
  combinations an entry of \<^verbatim>\<open>urls_for_checking\<close> comes from.
\<close>

definition candidate_of :: "string \<Rightarrow> string \<Rightarrow> RepoData \<Rightarrow> string \<Rightarrow> string \<times> UrlInfo \<Rightarrow> bool" where
  "candidate_of mirror_url ver repo_data arch entry =
     (url_for_check mirror_url ver (str_replace (path repo_data) ''$basearch'' arch)
        = Inr (fst entry)
      \<and> snd entry =
          \<lparr>version = ver, repo_path = str_replace (path repo_data) ''$basearch'' arch\<rparr>)"

section \<open>Base URL selection: properties\<close>

lemma next_address_None: "next_address items required = None \<longleftrightarrow> fst ` set items \<inter> set required = {}"
  by (induction items required rule: next_address.induct) auto

text \<open>
  C1, as stated, fails: a mirror that lists \<open>http\<close> before \<open>https\<close> is checked over its
  \<open>http\<close> address even when the configuration names \<open>https\<close> first.
\<close>

theorem base_url_not_in_preference_order:
  "next_address [(''http'', ''http://m.example/al''), (''https'', ''https://m.example/al'')]
       [''https'', ''http''] = Some ''http://m.example/al''
   \<and> spec_preferred_address
       [(''http'', ''http://m.example/al''), (''https'', ''https://m.example/al'')]
       [''https'', ''http''] = Some ''https://m.example/al''
   \<and> next_address [(''http'', ''http://m.example/al''), (''https'', ''https://m.example/al'')]
       [''https'', ''http'']
     \<noteq> spec_preferred_address
       [(''http'', ''http://m.example/al''), (''https'', ''https://m.example/al'')]
       [''https'', ''http'']"
  by simp

text \<open>
  C1, amended: the base URL is the address of the first item of \<open>mirror.urls\<close>, in the
  order of that dictionary, whose protocol key is a member of \<open>requiredProtocols\<close>; only
  the membership counts, so the order in which \<open>requiredProtocols\<close> lists its protocols
  has no influence.
\<close>

theorem base_url_first_in_urls_order:
  "(next_address items required = Some a \<longleftrightarrow>
      (\<exists>i < length items. snd (items ! i) = a \<and> fst (items ! i) \<in> set required
          \<and> (\<forall>j < i. fst (items ! j) \<notin> set required)))
   \<and> (set required' = set required \<longrightarrow>
        next_address items required' = next_address items required)"
proof
  show "next_address items required = Some a \<longleftrightarrow>
      (\<exists>i < length items. snd (items ! i) = a \<and> fst (items ! i) \<in> set required
          \<and> (\<forall>j < i. fst (items ! j) \<notin> set required))"
  proof (induction items required rule: next_address.induct)
    case (1 required)
    show ?case by simp
  next
    case (2 protocol_type address items required)
    show ?case
    proof (cases "protocol_type \<in> set required")
      case True
      let ?xs = "(protocol_type, address) # items"
      have "(\<exists>i < length ?xs. snd (?xs ! i) = a \<and> fst (?xs ! i) \<in> set required
          \<and> (\<forall>j < i. fst (?xs ! j) \<notin> set required)) \<longleftrightarrow> address = a"
      proof
        assume "\<exists>i < length ?xs. snd (?xs ! i) = a \<and> fst (?xs ! i) \<in> set required
          \<and> (\<forall>j < i. fst (?xs ! j) \<notin> set required)"
        then obtain i where i: "snd (?xs ! i) = a" "\<forall>j < i. fst (?xs ! j) \<notin> set required"
          by blast
        have "i = 0"
        proof (rule ccontr)
          assume "i \<noteq> 0"
          then have "0 < i" by simp
          with i(2) have "fst (?xs ! 0) \<notin> set required" by blast
          with True show False by simp
        qed
        with i(1) show "address = a" by simp
      next
        assume "address = a"
        with True have "0 < length ?xs \<and> snd (?xs ! 0) = a \<and> fst (?xs ! 0) \<in> set required
          \<and> (\<forall>j < 0. fst (?xs ! j) \<notin> set required)" by simp
        then show "\<exists>i < length ?xs. snd (?xs ! i) = a \<and> fst (?xs ! i) \<in> set required
          \<and> (\<forall>j < i. fst (?xs ! j) \<notin> set required)" by blast
      qed
      with True show ?thesis by auto
    next
      case False
      let ?P = "\<lambda>xs i. snd (xs ! i) = a \<and> fst (xs ! i) \<in> set required
          \<and> (\<forall>j < i. fst (xs ! j) \<notin> set required)"
      have "(\<exists>i < length ((protocol_type, address) # items). ?P ((protocol_type, address) # items) i)
        \<longleftrightarrow> (\<exists>i < length items. ?P items i)"
      proof
        assume "\<exists>i < length ((protocol_type, address) # items). ?P ((protocol_type, address) # items) i"
        then obtain i where i: "i < length ((protocol_type, address) # items)"
          "?P ((protocol_type, address) # items) i" by blast
        with False obtain k where k: "i = Suc k" by (cases i) auto
        from i k have "k < length items" by simp
        moreover from i k have "snd (items ! k) = a" "fst (items ! k) \<in> set required" by simp_all
        moreover have "\<forall>j < k. fst (items ! j) \<notin> set required"
        proof (intro allI impI)
          fix j assume "j < k"
          then have "Suc j < i" using k by simp
          with i have "fst (((protocol_type, address) # items) ! Suc j) \<notin> set required" by blast
          then show "fst (items ! j) \<notin> set required" by simp
        qed
        ultimately show "\<exists>i < length items. ?P items i" by blast
      next
        assume "\<exists>i < length items. ?P items i"
        then obtain k where k: "k < length items" "?P items k" by blast
        have "\<forall>j < Suc k. fst (((protocol_type, address) # items) ! j) \<notin> set required"
        proof (intro allI impI)
          fix j assume j: "j < Suc k"
          show "fst (((protocol_type, address) # items) ! j) \<notin> set required"
          proof (cases j)
            case 0
            with False show ?thesis by simp
          next
            case (Suc j')
            with j k show ?thesis by simp
          qed
        qed
        with k have "Suc k < length ((protocol_type, address) # items)
            \<and> ?P ((protocol_type, address) # items) (Suc k)" by simp
        then show "\<exists>i < length ((protocol_type, address) # items).
            ?P ((protocol_type, address) # items) i" by blast
      qed
      with False 2 show ?thesis by simp
    qed
  qed
next
  show "set required' = set required \<longrightarrow>
      next_address items required' = next_address items required"
  proof
    assume eq: "set required' = set required"
    show "next_address items required' = next_address items required"
      by (induction items) (auto simp: eq)
  qed
qed

theorem base_url_first_in_urls_order_witness:
  "next_address [(''rsync'', ''rsync://m.example/al''), (''http'', ''http://m.example/al''),
        (''https'', ''https://m.example/al'')] [''https'', ''http'']
     = Some ''http://m.example/al''
   \<and> next_address [(''rsync'', ''rsync://m.example/al''), (''http'', ''http://m.example/al''),
        (''https'', ''https://m.example/al'')] [''http'', ''https'']
     = Some ''http://m.example/al''"
  using base_url_first_in_urls_order
    [of "[(''rsync'', ''rsync://m.example/al''), (''http'', ''http://m.example/al''),
          (''https'', ''https://m.example/al'')]"
        "[''https'', ''http'']" "''http://m.example/al''" "[''http'', ''https'']"]
  by simp

section \<open>The \<open>$basearch\<close> substitution\<close>

lemma startswith_iff: "startswith s p \<longleftrightarrow> (\<exists>z. s = p @ z)"
  by (induction s p rule: startswith.induct) auto

lemma str_contains_iff: "str_contains s sub \<longleftrightarrow> (\<exists>a b. s = a @ sub @ b)"
proof (induction s)
  case Nil
  show ?case by auto
next
  case (Cons c cs)
  show ?case
  proof
    assume "str_contains (c # cs) sub"
    then consider "startswith (c # cs) sub" | "str_contains cs sub" by auto
    then show "\<exists>a b. c # cs = a @ sub @ b"
    proof cases
      case 1
      then obtain z where "c # cs = sub @ z" by (auto simp: startswith_iff)
      then have "c # cs = [] @ sub @ z" by simp
      then show ?thesis by blast
    next
      case 2
      with Cons obtain a b where "cs = a @ sub @ b" by blast
      then have "c # cs = (c # a) @ sub @ b" by simp
      then show ?thesis by blast
    qed
  next
    assume "\<exists>a b. c # cs = a @ sub @ b"
    then obtain a b where ab: "c # cs = a @ sub @ b" by blast
    show "str_contains (c # cs) sub"
    proof (cases a)
      case Nil
      with ab have "startswith (c # cs) sub" by (auto simp: startswith_iff)
      then show ?thesis by simp
    next
      case (Cons a0 as)
      with ab have "cs = as @ sub @ b" by simp
      with Cons.IH have "str_contains cs sub" by blast
      then show ?thesis by simp
    qed
  qed
qed

text \<open>
  When the first character of the placeholder does not occur again in it, an occurrence
  cannot begin in the text before a placeholder and end inside that placeholder.
\<close>

lemma no_straddle:
  assumes "h \<notin> set t" "s \<noteq> []" "startswith (s @ (h # t) @ rest) (h # t)"
  shows "startswith s (h # t)"
proof -
  from assms(3) obtain z where z: "s @ (h # t) @ rest = (h # t) @ z"
    by (auto simp: startswith_iff)
  then obtain us where
    "s = (h # t) @ us \<and> us @ (h # t) @ rest = z \<or> s @ us = h # t \<and> (h # t) @ rest = us @ z"
    unfolding append_eq_append_conv2 by blast
  then consider u where "s = (h # t) @ u"
    | u where "s @ u = h # t" "u \<noteq> []" "(h # t) @ rest = u @ z"
    by (cases "us = []") auto
  then show ?thesis
  proof cases
    case 1
    then show ?thesis by (auto simp: startswith_iff)
  next
    case 2
    from 2(1) assms(2) obtain s' where "s = h # s'" "s' @ u = t" by (cases s) auto
    moreover from 2(2,3) have "hd u = h" by (cases u) auto
    ultimately have "h \<in> set t" using 2(2) by (cases u) auto
    with assms(1) show ?thesis by simp
  qed
qed

lemma replace_hit:
  "old \<noteq> [] \<Longrightarrow> startswith (c # cs) old \<Longrightarrow>
   replace_nonempty old new (c # cs) = new @ replace_nonempty old new (drop (length old) (c # cs))"
  by (subst replace_nonempty.simps) simp

lemma replace_miss:
  "\<not> startswith (c # cs) old \<Longrightarrow>
   replace_nonempty old new (c # cs) = c # replace_nonempty old new cs"
  by (subst replace_nonempty.simps) simp

lemma replace_piece:
  assumes "h \<notin> set t" "\<not> str_contains p (h # t)"
  shows "replace_nonempty (h # t) new (p @ (h # t) @ rest)
       = p @ new @ replace_nonempty (h # t) new rest"
  using assms(2)
proof (induction p)
  case Nil
  have "startswith (h # t @ rest) (h # t)" by (auto simp: startswith_iff)
  then have "replace_nonempty (h # t) new (h # t @ rest)
      = new @ replace_nonempty (h # t) new (drop (length (h # t)) (h # t @ rest))"
    using replace_hit [of "h # t" h "t @ rest" new] by simp
  then show ?case by simp
next
  case (Cons c cs)
  have "\<not> startswith ((c # cs) @ (h # t) @ rest) (h # t)"
  proof
    assume "startswith ((c # cs) @ (h # t) @ rest) (h # t)"
    then have "startswith (c # cs) (h # t)"
      using assms(1) no_straddle [of h t "c # cs" rest] by simp
    with Cons.prems show False by simp
  qed
  then have "replace_nonempty (h # t) new (c # cs @ (h # t) @ rest)
      = c # replace_nonempty (h # t) new (cs @ (h # t) @ rest)"
    using replace_miss [of c "cs @ (h # t) @ rest" "h # t" new] by simp
  moreover from Cons.prems have "\<not> str_contains cs (h # t)" by simp
  ultimately show ?case using Cons.IH by simp
qed

lemma replace_absent: "\<not> str_contains p old \<Longrightarrow> replace_nonempty old new p = p"
  by (induction p) (auto simp: replace_nonempty.simps(1) replace_miss)

lemma replace_join:
  assumes "h \<notin> set t"
  shows "pieces \<noteq> [] \<Longrightarrow> \<forall>p \<in> set pieces. \<not> str_contains p (h # t) \<Longrightarrow>
    replace_nonempty (h # t) new (str_join (h # t) pieces) = str_join new pieces"
proof (induction "h # t" pieces rule: str_join.induct)
  case 1
  then show ?case by simp
next
  case (2 p)
  then show ?case by (simp add: replace_absent)
next
  case (3 p q ps)
  then show ?case
    using replace_piece [OF assms, of p new "str_join (h # t) (q # ps)"] by simp
qed

lemma str_join_Cons:
  "str_join sep (p # ps) = p @ (if ps = [] then [] else sep @ str_join sep ps)"
  by (cases ps) auto

text \<open>Every string is its pieces between the occurrences of a separator, joined again.\<close>

lemma join_decomposition:
  assumes "sep \<noteq> []"
  shows "\<exists>pieces. pieces \<noteq> [] \<and> (\<forall>p \<in> set pieces. \<not> str_contains p sep)
           \<and> s = str_join sep pieces"
proof (induction s)
  case Nil
  from assms have "\<not> str_contains [] sep" by simp
  then have "[[]] \<noteq> [] \<and> (\<forall>p \<in> set [[]]. \<not> str_contains p sep) \<and> [] = str_join sep [[]]"
    by simp
  then show ?case by blast
next
  case (Cons c cs)
  then obtain pieces where pieces: "pieces \<noteq> []" "\<forall>p \<in> set pieces. \<not> str_contains p sep"
    "cs = str_join sep pieces" by blast
  then obtain q qs where q: "pieces = q # qs" by (cases pieces) auto
  let ?tail = "if qs = [] then [] else sep @ str_join sep qs"
  from pieces(3) q have cs: "cs = q @ ?tail" by (simp only: str_join_Cons)
  show ?case
  proof (cases "str_contains (c # q) sep")
    case False
    with pieces(2) q have "\<forall>p \<in> set ((c # q) # qs). \<not> str_contains p sep" by simp
    moreover from cs have "c # cs = str_join sep ((c # q) # qs)"
      by (simp only: str_join_Cons) simp
    ultimately have "(c # q) # qs \<noteq> [] \<and> (\<forall>p \<in> set ((c # q) # qs). \<not> str_contains p sep)
        \<and> c # cs = str_join sep ((c # q) # qs)" by simp
    then show ?thesis by blast
  next
    case True
    from pieces(2) q have nq: "\<not> str_contains q sep" by simp
    with True have "startswith (c # q) sep" by simp
    then obtain z where z: "c # q = sep @ z" by (auto simp: startswith_iff)
    from assms z obtain t where t: "sep = c # t" "q = t @ z" by (cases sep) auto
    have nz: "\<not> str_contains z sep"
    proof
      assume "str_contains z sep"
      then obtain a b where "z = a @ sep @ b" by (auto simp: str_contains_iff)
      with t have "q = (t @ a) @ sep @ b" by simp
      with nq show False unfolding str_contains_iff by blast
    qed
    from assms have ne: "\<not> str_contains [] sep" by simp
    from nz ne pieces(2) q have "\<forall>p \<in> set ([] # z # qs). \<not> str_contains p sep" by simp
    moreover have "c # cs = str_join sep ([] # z # qs)"
    proof -
      have "c # cs = (c # q) @ ?tail" using cs by simp
      also have "\<dots> = sep @ z @ ?tail" using z by simp
      also have "\<dots> = str_join sep ([] # z # qs)" by (simp add: str_join_Cons)
      finally show ?thesis .
    qed
    ultimately have "[] # z # qs \<noteq> [] \<and> (\<forall>p \<in> set ([] # z # qs). \<not> str_contains p sep)
        \<and> c # cs = str_join sep ([] # z # qs)" by simp
    then show ?thesis by blast
  qed
qed

text \<open>
  C10: \<^verbatim>\<open>repo_data.path.replace('$basearch', arch)\<close> replaces every occurrence of
  \<open>$basearch\<close>, not only the first. A path is the pieces between its occurrences of
  \<open>$basearch\<close>, joined by \<open>$basearch\<close> (third part: every path is of that form); the
  substitution yields the same pieces joined by the arch (first part). A path without
  \<open>$basearch\<close> is left unchanged (second part).
\<close>

theorem basearch_replaced_everywhere:
  "(pieces \<noteq> [] \<and> (\<forall>p \<in> set pieces. \<not> str_contains p ''$basearch'') \<longrightarrow>
      str_replace (str_join ''$basearch'' pieces) ''$basearch'' arch = str_join arch pieces)
   \<and> (\<not> str_contains rpath ''$basearch'' \<longrightarrow> str_replace rpath ''$basearch'' arch = rpath)
   \<and> (\<exists>parts. parts \<noteq> [] \<and> (\<forall>p \<in> set parts. \<not> str_contains p ''$basearch'')
         \<and> rpath = str_join ''$basearch'' parts)"
proof (intro conjI impI)
  have fresh: "CHR ''$'' \<notin> set ''basearch''" by simp
  assume "pieces \<noteq> [] \<and> (\<forall>p \<in> set pieces. \<not> str_contains p ''$basearch'')"
  then have "replace_nonempty ''$basearch'' arch (str_join ''$basearch'' pieces)
      = str_join arch pieces"
    using replace_join [OF fresh, of pieces arch] by blast
  then show "str_replace (str_join ''$basearch'' pieces) ''$basearch'' arch = str_join arch pieces"
    by (simp add: str_replace_def)
next
  assume "\<not> str_contains rpath ''$basearch''"
  then have "replace_nonempty ''$basearch'' arch rpath = rpath" by (rule replace_absent)
  then show "str_replace rpath ''$basearch'' arch = rpath" by (simp add: str_replace_def)
next
  show "\<exists>parts. parts \<noteq> [] \<and> (\<forall>p \<in> set parts. \<not> str_contains p ''$basearch'')
         \<and> rpath = str_join ''$basearch'' parts"
    by (rule join_decomposition) simp
qed

theorem basearch_replaced_everywhere_witness:
  "str_replace ''$basearch/os/$basearch/debug'' ''$basearch'' ''aarch64''
     = ''aarch64/os/aarch64/debug''
   \<and> str_replace ''8/isos'' ''$basearch'' ''aarch64'' = ''8/isos''"
proof
  have pieces: "['''', ''/os/'', ''/debug''] \<noteq> []
      \<and> (\<forall>p \<in> set ['''', ''/os/'', ''/debug'']. \<not> str_contains p ''$basearch'')"
    by simp
  have "str_replace (str_join ''$basearch'' ['''', ''/os/'', ''/debug'']) ''$basearch'' ''aarch64''
      = str_join ''aarch64'' ['''', ''/os/'', ''/debug'']"
    using basearch_replaced_everywhere [of "['''', ''/os/'', ''/debug'']" "''aarch64''" "''''"]
      pieces by blast
  then show "str_replace ''$basearch/os/$basearch/debug'' ''$basearch'' ''aarch64''
     = ''aarch64/os/aarch64/debug''" by simp
next
  have "\<not> str_contains ''8/isos'' ''$basearch''" by simp
  then show "str_replace ''8/isos'' ''$basearch'' ''aarch64'' = ''8/isos''"
    using basearch_replaced_everywhere [of "[]" "''aarch64''" "''8/isos''"] by blast
qed

section \<open>The prober\<close>

lemma try_block_never_False: "try_block url http_session is_get_request \<noteq> Inr False"
  by (auto simp: try_block_def Let_def split: sum.splits)

text \<open>
  C3: \<^verbatim>\<open>is_url_available\<close> returns \<open>False\<close> exactly when the request or the reading of the
  body raised an exception of one of the five expected classes (timeout, HTTP error,
  client/transport error, Unicode error, cancellation); it lets an exception escape exactly
  when one of another class was raised, and it is that exception; it returns \<open>True\<close>
  exactly when nothing was raised.
\<close>

theorem prober_failure_classes:
  "(is_url_available url http_session is_get_request = Inr False \<longleftrightarrow>
      (\<exists>err. try_block url http_session is_get_request = Inl err
          \<and> err \<in> {TimeoutError, HTTPError, ClientError, UnicodeError, CancelledError}))
   \<and> (is_url_available url http_session is_get_request = Inl e \<longleftrightarrow>
      (try_block url http_session is_get_request = Inl e
          \<and> e \<notin> {TimeoutError, HTTPError, ClientError, UnicodeError, CancelledError}))
   \<and> (is_url_available url http_session is_get_request = Inr True \<longleftrightarrow>
      try_block url http_session is_get_request = Inr True)"
  using try_block_never_False [of url http_session is_get_request]
  by (auto simp: is_url_available_def split: sum.splits)

theorem prober_failure_classes_witness:
  "is_url_available ''https://example.org/repomd.xml'' session_down True = Inr False
   \<and> is_url_available ''https://example.org/repomd.xml''
         (\<lambda>method url headers. Inr \<lparr>response_text = Inl UnicodeError\<rparr>) True = Inr False
   \<and> is_url_available ''https://example.org/repomd.xml'' session_closed True
         = Inl (OtherException ''RuntimeError'')
   \<and> is_url_available ''https://example.org/repomd.xml'' session_up True = Inr True"
proof (intro conjI)
  have "try_block ''https://example.org/repomd.xml'' session_down True = Inl ClientError"
    by (simp add: try_block_def session_down_def)
  then show "is_url_available ''https://example.org/repomd.xml'' session_down True = Inr False"
    using prober_failure_classes
      [of "''https://example.org/repomd.xml''" session_down True ClientError]
    by simp
next
  let ?undecodable = "\<lambda>method url headers. Inr \<lparr>response_text = Inl UnicodeError\<rparr>
                       :: exn + Response"
  have "try_block ''https://example.org/repomd.xml'' ?undecodable True = Inl UnicodeError"
    by (simp add: try_block_def)
  then show "is_url_available ''https://example.org/repomd.xml'' ?undecodable True = Inr False"
    using prober_failure_classes
      [of "''https://example.org/repomd.xml''" ?undecodable True UnicodeError]
    by simp
next
  have "try_block ''https://example.org/repomd.xml'' session_closed True
      = Inl (OtherException ''RuntimeError'')"
    by (simp add: try_block_def session_closed_def)
  then show "is_url_available ''https://example.org/repomd.xml'' session_closed True
      = Inl (OtherException ''RuntimeError'')"
    using prober_failure_classes
      [of "''https://example.org/repomd.xml''" session_closed True
          "OtherException ''RuntimeError''"]
    by simp
next
  have "try_block ''https://example.org/repomd.xml'' session_up True = Inr True"
    by (simp add: try_block_def session_up_def)
  then show "is_url_available ''https://example.org/repomd.xml'' session_up True = Inr True"
    using prober_failure_classes
      [of "''https://example.org/repomd.xml''" session_up True ClientError]
    by simp
qed

section \<open>Mirrors that are not probed\<close>

text \<open>
  C7: for a private mirror \<^verbatim>\<open>mirror_available\<close> returns \<open>(name, True)\<close>; it creates no
  probe task, cancels none and never waits, whatever the configuration, the session and
  the timing are.
\<close>

theorem private_mirror_not_probed:
  "is_private mirror_info \<Longrightarrow>
   mirror_available g finish mirror_info http_session main_config =
     \<lparr>verdict = Inr (MirrorData.name mirror_info, True), probed = [], cancelled_probes = [],
      resumed_at = []\<rparr>"
  by (simp add: mirror_available_def)

theorem private_mirror_not_probed_witness:
  "mirror_available module_globals (\<lambda>url. 0) (example_mirror\<lparr>is_private := True\<rparr>)
       session_down example_config =
     \<lparr>verdict = Inr (''mirror.example.org'', True), probed = [], cancelled_probes = [],
      resumed_at = []\<rparr>"
  using private_mirror_not_probed
    [of "example_mirror\<lparr>is_private := True\<rparr>" module_globals "\<lambda>url. 0" session_down
        example_config]
  by (simp add: example_mirror_def)

text \<open>
  C8: for a mirror that is not private and has no URL whose protocol is among the required
  protocols, \<^verbatim>\<open>mirror_available\<close> returns \<open>(name, False)\<close> and creates no probe task.
\<close>

theorem no_required_protocol_unavailable:
  "\<not> is_private mirror_info \<Longrightarrow>
   fst ` set (urls mirror_info) \<inter> set (required_protocols main_config) = {} \<Longrightarrow>
   mirror_available g finish mirror_info http_session main_config =
     \<lparr>verdict = Inr (MirrorData.name mirror_info, False), probed = [], cancelled_probes = [],
      resumed_at = []\<rparr>"
proof -
  assume np: "\<not> is_private mirror_info"
    and none: "fst ` set (urls mirror_info) \<inter> set (required_protocols main_config) = {}"
  from none have "next_address (urls mirror_info) (required_protocols main_config) = None"
    by (simp add: next_address_None)
  with np show ?thesis by (simp add: mirror_available_def)
qed

theorem no_required_protocol_unavailable_witness:
  "mirror_available module_globals (\<lambda>url. 0)
       (example_mirror\<lparr>urls := [(''rsync'', ''rsync://example.org/almalinux'')]\<rparr>)
       session_up example_config =
     \<lparr>verdict = Inr (''mirror.example.org'', False), probed = [], cancelled_probes = [],
      resumed_at = []\<rparr>"
  using no_required_protocol_unavailable
    [of "example_mirror\<lparr>urls := [(''rsync'', ''rsync://example.org/almalinux'')]\<rparr>"
        example_config module_globals "\<lambda>url. 0" session_up]
  by (simp add: example_mirror_def example_config_def)

section \<open>The constant \<open>WHITELIST_MIRRORS\<close>\<close>

lemma arches_loop_ignores_WHITELIST_MIRRORS:
  "arches_loop (g\<lparr>WHITELIST_MIRRORS := w\<rparr>) mirror_info main_config mirror_url ver
       repo_data arch_list d
     = arches_loop g mirror_info main_config mirror_url ver repo_data arch_list d"
  by (induction arch_list arbitrary: d)
     (auto simp: arch_not_whitelisted_def Let_def split: sum.splits)

lemma repos_loop_ignores_WHITELIST_MIRRORS:
  "repos_loop (g\<lparr>WHITELIST_MIRRORS := w\<rparr>) mirror_info main_config mirror_url ver repo_list d
     = repos_loop g mirror_info main_config mirror_url ver repo_list d"
  by (induction repo_list arbitrary: d)
     (auto simp: repo_not_whitelisted_def arches_loop_ignores_WHITELIST_MIRRORS Let_def
           split: sum.splits)

lemma versions_loop_ignores_WHITELIST_MIRRORS:
  "versions_loop (g\<lparr>WHITELIST_MIRRORS := w\<rparr>) mirror_info main_config mirror_url version_list d
     = versions_loop g mirror_info main_config mirror_url version_list d"
  by (induction version_list arbitrary: d)
     (auto simp: repos_loop_ignores_WHITELIST_MIRRORS split: sum.splits)

text \<open>
  C9: \<^verbatim>\<open>mirror_available\<close> never reads \<open>WHITELIST_MIRRORS\<close>. With the constant replaced
  by the empty collection the check does the same and returns the same, for every mirror,
  configuration, session and timing.
\<close>

theorem verdict_ignores_WHITELIST_MIRRORS:
  "mirror_available (g\<lparr>WHITELIST_MIRRORS := []\<rparr>) finish mirror_info http_session main_config
     = mirror_available g finish mirror_info http_session main_config"
proof -
  have same: "enumerate_urls (g\<lparr>WHITELIST_MIRRORS := []\<rparr>) mirror_info main_config
      = enumerate_urls g mirror_info main_config"
    by (intro ext) (simp add: enumerate_urls_def versions_loop_ignores_WHITELIST_MIRRORS)
  show ?thesis unfolding mirror_available_def same by (rule refl)
qed

section \<open>The enumeration\<close>

lemma example_url:
  "url_for_check ''https://example.org/almalinux'' ''8'' ''x86_64/os''
     = Inr ''https://example.org/almalinux/8/x86_64/os/repodata/repomd.xml''"
  by code_simp

lemma example_repo_path: "str_replace ''$basearch/os'' ''$basearch'' ''x86_64'' = ''x86_64/os''"
  by code_simp

lemma module_entries:
  "map_of (WHITELIST_MIRRORS_PER_ARCH_REPO module_globals) n = Some entry \<Longrightarrow> entry = azure_entry"
  by (auto simp: module_globals_def split: if_splits)

lemma BaseOS_whitelisted:
  "RepoData.name repo_data = ''BaseOS'' \<Longrightarrow>
   \<not> repo_not_whitelisted module_globals mirror_info repo_data"
  by (auto simp: repo_not_whitelisted_def azure_entry_def split: option.splits
           dest!: module_entries)

lemma x86_64_whitelisted: "\<not> arch_not_whitelisted module_globals mirror_info ''x86_64''"
  by (auto simp: arch_not_whitelisted_def azure_entry_def split: option.splits
           dest!: module_entries)

text \<open>
  C5: with the configuration of the example (\<^const>\<open>example_config\<close>) and a mirror whose
  only URL is \<open>https://example.org/almalinux\<close>, that URL is the base URL and the
  enumeration yields exactly one candidate,
  \<open>https://example.org/almalinux/8/x86_64/os/repodata/repomd.xml\<close>. This holds whatever
  the mirror's name, cloud type and private flag are.
\<close>

theorem example_end_to_end:
  "next_address (urls \<lparr>MirrorData.name = n, urls = [(''https'', ''https://example.org/almalinux'')],
                        cloud_type = ct, is_private = p\<rparr>)
       (required_protocols example_config) = Some ''https://example.org/almalinux''
   \<and> enumerate_urls module_globals
         \<lparr>MirrorData.name = n, urls = [(''https'', ''https://example.org/almalinux'')],
          cloud_type = ct, is_private = p\<rparr>
         example_config ''https://example.org/almalinux''
       = Inr [(''https://example.org/almalinux/8/x86_64/os/repodata/repomd.xml'',
               \<lparr>version = ''8'', repo_path = ''x86_64/os''\<rparr>)]"
proof
  show "next_address (urls \<lparr>MirrorData.name = n, urls = [(''https'', ''https://example.org/almalinux'')],
                        cloud_type = ct, is_private = p\<rparr>)
       (required_protocols example_config) = Some ''https://example.org/almalinux''"
    by (simp add: example_config_def)
next
  let ?m = "\<lparr>MirrorData.name = n, urls = [(''https'', ''https://example.org/almalinux'')],
          cloud_type = ct, is_private = p\<rparr>"
  let ?repo = "\<lparr>RepoData.name = ''BaseOS'', path = ''$basearch/os'', RepoData.arches = [],
             RepoData.versions = [], vault = False\<rparr>"
  have beta: "\<not> str_contains ''8'' ''beta''" by simp
  have arches: "arches_loop module_globals ?m example_config ''https://example.org/almalinux'' ''8''
        ?repo [''x86_64''] []
      = Inr [(''https://example.org/almalinux/8/x86_64/os/repodata/repomd.xml'',
               \<lparr>version = ''8'', repo_path = ''x86_64/os''\<rparr>)]"
    by (simp add: x86_64_whitelisted is_permitted_arch_for_this_version_and_repo_def
          example_config_def example_repo_path example_url)
  have repos: "repos_loop module_globals ?m example_config ''https://example.org/almalinux'' ''8''
        [?repo] []
      = Inr [(''https://example.org/almalinux/8/x86_64/os/repodata/repomd.xml'',
               \<lparr>version = ''8'', repo_path = ''x86_64/os''\<rparr>)]"
    using arches
    by (simp add: BaseOS_whitelisted get_arches_for_version_def example_config_def)
  show "enumerate_urls module_globals ?m example_config ''https://example.org/almalinux''
       = Inr [(''https://example.org/almalinux/8/x86_64/os/repodata/repomd.xml'',
               \<lparr>version = ''8'', repo_path = ''x86_64/os''\<rparr>)]"
    using repos beta by (simp add: enumerate_urls_def example_config_def)
qed

theorem example_end_to_end_witness:
  "enumerate_urls module_globals example_mirror example_config ''https://example.org/almalinux''
     = Inr [(''https://example.org/almalinux/8/x86_64/os/repodata/repomd.xml'',
             \<lparr>version = ''8'', repo_path = ''x86_64/os''\<rparr>)]"
  using example_end_to_end [of "''mirror.example.org''" "''''" False]
  by (simp add: example_mirror_def)

section \<open>No candidate to probe\<close>

lemma empty_enumeration_raises:
  assumes "\<not> is_private mirror_info"
    and "next_address (urls mirror_info) (required_protocols main_config) = Some mirror_url"
    and "enumerate_urls g mirror_info main_config mirror_url = Inr []"
  shows "mirror_available g finish mirror_info http_session main_config =
     \<lparr>verdict = Inl ValueError, probed = [], cancelled_probes = [], resumed_at = []\<rparr>"
proof -
  have "check_tasks [] = \<lparr>outcome = Inl ValueError, cancelled = [], woke_at = []\<rparr>"
    by (simp add: check_tasks.simps [of "[]"] asyncio_wait_def)
  with assms show ?thesis by (simp add: mirror_available_def)
qed

text \<open>
  C2 (the code departs from the claim): a mirror that is not private and has an \<open>https\<close>
  URL, checked against a configuration without repositories. The enumeration is empty,
  \<^verbatim>\<open>_check_tasks\<close> calls \<^verbatim>\<open>asyncio.wait\<close> on an empty list, and the \<open>ValueError\<close> that
  this raises leaves \<^verbatim>\<open>mirror_available\<close>: no pair is returned.
\<close>

theorem no_candidates_raises_ValueError:
  "enumerate_urls module_globals example_mirror (example_config\<lparr>MainConfig.repos := []\<rparr>)
       ''https://example.org/almalinux'' = Inr []
   \<and> mirror_available module_globals finish example_mirror session_up
         (example_config\<lparr>MainConfig.repos := []\<rparr>) =
       \<lparr>verdict = Inl ValueError, probed = [], cancelled_probes = [], resumed_at = []\<rparr>"
proof -
  have beta: "\<not> str_contains ''8'' ''beta''" by simp
  have none: "enumerate_urls module_globals example_mirror
      (example_config\<lparr>MainConfig.repos := []\<rparr>) ''https://example.org/almalinux'' = Inr []"
    using beta by (simp add: enumerate_urls_def example_config_def example_mirror_def)
  moreover have "\<not> is_private example_mirror" by (simp add: example_mirror_def)
  moreover have "next_address (urls example_mirror)
      (required_protocols (example_config\<lparr>MainConfig.repos := []\<rparr>))
      = Some ''https://example.org/almalinux''"
    by (simp add: example_mirror_def example_config_def)
  ultimately show ?thesis using empty_enumeration_raises by blast
qed

section \<open>Where the candidates come from\<close>

lemma dict_set_entries: "set (dict_set d key val) \<subseteq> insert (key, val) (set d)"
  by (induction d key val rule: dict_set.induct) auto

lemma arches_loop_entries:
  assumes "arches_loop g mirror_info main_config mirror_url ver repo_data arch_list d = Inr d'"
    and "entry \<in> set d'"
  shows "entry \<in> set d \<or>
    (\<exists>arch \<in> set arch_list.
        \<not> arch_not_whitelisted g mirror_info arch
      \<and> is_permitted_arch_for_this_version_and_repo ver arch (versions_arches main_config)
      \<and> candidate_of mirror_url ver repo_data arch entry)"
  using assms
proof (induction arch_list arbitrary: d)
  case Nil
  then show ?case by simp
next
  case (Cons arch rest)
  let ?rpath = "str_replace (path repo_data) ''$basearch'' arch"
  show ?case
  proof (cases "arch_not_whitelisted g mirror_info arch
      \<or> \<not> is_permitted_arch_for_this_version_and_repo ver arch (versions_arches main_config)")
    case True
    with Cons.prems have "arches_loop g mirror_info main_config mirror_url ver repo_data rest d = Inr d'"
      by (auto split: if_splits)
    with Cons.IH Cons.prems(2) show ?thesis by fastforce
  next
    case False
    with Cons.prems(1) obtain check_url where
      u: "url_for_check mirror_url ver ?rpath = Inr check_url"
      and rec: "arches_loop g mirror_info main_config mirror_url ver repo_data rest
          (dict_set d check_url \<lparr>version = ver, repo_path = ?rpath\<rparr>) = Inr d'"
      by (auto simp: Let_def split: sum.splits if_splits)
    from Cons.IH [OF rec Cons.prems(2)]
    consider "entry \<in> set (dict_set d check_url \<lparr>version = ver, repo_path = ?rpath\<rparr>)"
      | "\<exists>arch \<in> set rest.
            \<not> arch_not_whitelisted g mirror_info arch
          \<and> is_permitted_arch_for_this_version_and_repo ver arch (versions_arches main_config)
          \<and> candidate_of mirror_url ver repo_data arch entry"
      by blast
    then show ?thesis
    proof cases
      case 1
      with dict_set_entries [of d check_url "\<lparr>version = ver, repo_path = ?rpath\<rparr>"]
      have "entry \<in> set d \<or> entry = (check_url, \<lparr>version = ver, repo_path = ?rpath\<rparr>)"
        by auto
      then show ?thesis
      proof
        assume "entry \<in> set d"
        then show ?thesis by simp
      next
        assume "entry = (check_url, \<lparr>version = ver, repo_path = ?rpath\<rparr>)"
        with u have "candidate_of mirror_url ver repo_data arch entry"
          by (simp add: candidate_of_def)
        with False show ?thesis by auto
      qed
    next
      case 2
      then show ?thesis by auto
    qed
  qed
qed

lemma repos_loop_entries:
  assumes "repos_loop g mirror_info main_config mirror_url ver repo_list d = Inr d'"
    and "entry \<in> set d'"
  shows "entry \<in> set d \<or>
    (\<exists>repo_data \<in> set repo_list.
        \<not> repo_not_whitelisted g mirror_info repo_data
      \<and> \<not> vault repo_data
      \<and> (RepoData.versions repo_data = [] \<or> ver \<in> set (RepoData.versions repo_data))
      \<and> (\<exists>arch \<in> set (get_arches_for_version (RepoData.arches repo_data)
                          (MainConfig.arches main_config)).
            \<not> arch_not_whitelisted g mirror_info arch
          \<and> is_permitted_arch_for_this_version_and_repo ver arch (versions_arches main_config)
          \<and> candidate_of mirror_url ver repo_data arch entry))"
  using assms
proof (induction repo_list arbitrary: d)
  case Nil
  then show ?case by simp
next
  case (Cons repo_data rest)
  let ?skip = "repo_not_whitelisted g mirror_info repo_data \<or> vault repo_data
      \<or> (RepoData.versions repo_data \<noteq> [] \<and> ver \<notin> set (RepoData.versions repo_data))"
  show ?case
  proof (cases ?skip)
    case True
    with Cons.prems have "repos_loop g mirror_info main_config mirror_url ver rest d = Inr d'"
      by (auto simp: Let_def split: if_splits)
    with Cons.IH Cons.prems(2) show ?thesis by fastforce
  next
    case False
    with Cons.prems(1) obtain extended where
      inner: "arches_loop g mirror_info main_config mirror_url ver repo_data
          (get_arches_for_version (RepoData.arches repo_data) (MainConfig.arches main_config)) d
          = Inr extended"
      and rec: "repos_loop g mirror_info main_config mirror_url ver rest extended = Inr d'"
      by (auto simp: Let_def split: sum.splits if_splits)
    from Cons.IH [OF rec Cons.prems(2)] show ?thesis
    proof
      assume "entry \<in> set extended"
      from arches_loop_entries [OF inner this] False show ?thesis by auto
    next
      assume "\<exists>repo_data \<in> set rest.
        \<not> repo_not_whitelisted g mirror_info repo_data
      \<and> \<not> vault repo_data
      \<and> (RepoData.versions repo_data = [] \<or> ver \<in> set (RepoData.versions repo_data))
      \<and> (\<exists>arch \<in> set (get_arches_for_version (RepoData.arches repo_data)
                          (MainConfig.arches main_config)).
            \<not> arch_not_whitelisted g mirror_info arch
          \<and> is_permitted_arch_for_this_version_and_repo ver arch (versions_arches main_config)
          \<and> candidate_of mirror_url ver repo_data arch entry)"
      then show ?thesis by auto
    qed
  qed
qed

lemma versions_loop_entries:
  assumes "versions_loop g mirror_info main_config mirror_url version_list d = Inr d'"
    and "entry \<in> set d'"
  shows "entry \<in> set d \<or>
    (\<exists>ver \<in> set version_list.
        \<not> (cloud_type mirror_info \<noteq> [] \<and> str_contains ver ''beta'')
      \<and> ver \<notin> fst ` set (duplicated_versions main_config)
      \<and> (\<exists>repo_data \<in> set (MainConfig.repos main_config).
            \<not> repo_not_whitelisted g mirror_info repo_data
          \<and> \<not> vault repo_data
          \<and> (RepoData.versions repo_data = [] \<or> ver \<in> set (RepoData.versions repo_data))
          \<and> (\<exists>arch \<in> set (get_arches_for_version (RepoData.arches repo_data)
                              (MainConfig.arches main_config)).
                \<not> arch_not_whitelisted g mirror_info arch
              \<and> is_permitted_arch_for_this_version_and_repo ver arch
                    (versions_arches main_config)
              \<and> candidate_of mirror_url ver repo_data arch entry)))"
  using assms
proof (induction version_list arbitrary: d)
  case Nil
  then show ?case by simp
next
  case (Cons ver rest)
  let ?skip = "(cloud_type mirror_info \<noteq> [] \<and> str_contains ver ''beta'')
      \<or> ver \<in> fst ` set (duplicated_versions main_config)"
  show ?case
  proof (cases ?skip)
    case True
    with Cons.prems have "versions_loop g mirror_info main_config mirror_url rest d = Inr d'"
      by (auto split: if_splits)
    with Cons.IH Cons.prems(2) show ?thesis by fastforce
  next
    case False
    with Cons.prems(1) obtain extended where
      inner: "repos_loop g mirror_info main_config mirror_url ver (MainConfig.repos main_config) d
          = Inr extended"
      and rec: "versions_loop g mirror_info main_config mirror_url rest extended = Inr d'"
      by (auto split: sum.splits if_splits)
    from Cons.IH [OF rec Cons.prems(2)] show ?thesis
    proof
      assume "entry \<in> set extended"
      from repos_loop_entries [OF inner this] False show ?thesis by auto
    next
      assume "\<exists>ver \<in> set rest.
        \<not> (cloud_type mirror_info \<noteq> [] \<and> str_contains ver ''beta'')
      \<and> ver \<notin> fst ` set (duplicated_versions main_config)
      \<and> (\<exists>repo_data \<in> set (MainConfig.repos main_config).
            \<not> repo_not_whitelisted g mirror_info repo_data
          \<and> \<not> vault repo_data
          \<and> (RepoData.versions repo_data = [] \<or> ver \<in> set (RepoData.versions repo_data))
          \<and> (\<exists>arch \<in> set (get_arches_for_version (RepoData.arches repo_data)
                              (MainConfig.arches main_config)).
                \<not> arch_not_whitelisted g mirror_info arch
              \<and> is_permitted_arch_for_this_version_and_repo ver arch
                    (versions_arches main_config)
              \<and> candidate_of mirror_url ver repo_data arch entry))"
      then show ?thesis by auto
    qed
  qed
qed

text \<open>
  C6: when the mirror's name is a key of \<^verbatim>\<open>WHITELIST_MIRRORS_PER_ARCH_REPO\<close>, every entry of
  \<^verbatim>\<open>urls_for_checking\<close> is the entry emitted for some version, repository and architecture
  of the configuration such that the repository's name is in the \<^verbatim>\<open>'repos'\<close> list and the
  architecture is in the \<^verbatim>\<open>'arches'\<close> list of the mirror's table entry. Nothing is emitted
  for a repository or an architecture outside these lists, whatever the configuration
  permits.
\<close>

theorem override_restricts_candidates:
  assumes "map_of (WHITELIST_MIRRORS_PER_ARCH_REPO g) (MirrorData.name mirror_info) = Some allowed"
    and "enumerate_urls g mirror_info main_config mirror_url = Inr urls_for_checking"
    and "entry \<in> set urls_for_checking"
  shows "\<exists>ver \<in> set (MainConfig.versions main_config).
         \<exists>repo_data \<in> set (MainConfig.repos main_config).
         \<exists>arch \<in> set (get_arches_for_version (RepoData.arches repo_data)
                         (MainConfig.arches main_config)).
           RepoData.name repo_data \<in> set (WhitelistEntry.repos allowed)
         \<and> arch \<in> set (WhitelistEntry.arches allowed)
         \<and> candidate_of mirror_url ver repo_data arch entry"
proof -
  from assms(2) have "versions_loop g mirror_info main_config mirror_url
      (MainConfig.versions main_config) [] = Inr urls_for_checking"
    by (simp add: enumerate_urls_def)
  from versions_loop_entries [OF this assms(3)]
  obtain ver repo_data arch where
    "ver \<in> set (MainConfig.versions main_config)"
    "repo_data \<in> set (MainConfig.repos main_config)"
    "arch \<in> set (get_arches_for_version (RepoData.arches repo_data)
                    (MainConfig.arches main_config))"
    "\<not> repo_not_whitelisted g mirror_info repo_data"
    "\<not> arch_not_whitelisted g mirror_info arch"
    "candidate_of mirror_url ver repo_data arch entry"
    by auto
  moreover from this assms(1) have "RepoData.name repo_data \<in> set (WhitelistEntry.repos allowed)"
    "arch \<in> set (WhitelistEntry.arches allowed)"
    by (simp_all add: repo_not_whitelisted_def arch_not_whitelisted_def)
  ultimately show ?thesis by blast
qed

section \<open>Fail-fast aggregation\<close>

lemma all_results_true_True:
  "all_results_true ts = Inr True \<longleftrightarrow> (\<forall>t \<in> set ts. task_result t = Inr True)"
  by (induction ts) (auto split: sum.splits)

lemma all_results_true_False:
  "all_results_true ts = Inr False \<Longrightarrow> \<exists>t \<in> set ts. task_result t = Inr False"
  by (induction ts) (auto split: sum.splits if_splits)

lemma all_results_true_raises:
  "all_results_true ts = Inl err \<Longrightarrow> \<exists>t \<in> set ts. task_result t = Inl err"
  by (induction ts) (auto split: sum.splits if_splits)

lemma first_completion_le: "t \<in> set ts \<Longrightarrow> first_completion ts \<le> done_at t"
  by (simp add: first_completion_def)

lemma first_completion_in: "ts \<noteq> [] \<Longrightarrow> \<exists>t \<in> set ts. done_at t = first_completion ts"
proof -
  assume "ts \<noteq> []"
  then have "Min (set (map done_at ts)) \<in> set (map done_at ts)" by (intro Min_in) auto
  then show ?thesis by (auto simp: first_completion_def)
qed

text \<open>
  What a run of \<open>check_tasks\<close> over a non-empty list looks like. It ends at the time \<open>T\<close>
  of its last wake-up, when a task finishes; every task that finished before \<open>T\<close> returned
  \<open>True\<close>. It returns \<open>True\<close> when every task has finished with \<open>True\<close>; it returns
  \<open>False\<close> when a task that finishes at \<open>T\<close> returned \<open>False\<close>, and has then cancelled the
  tasks that finish after \<open>T\<close>; it raises when a task that finishes at \<open>T\<close> raised.
\<close>

lemma check_tasks_run:
  assumes "tasks \<noteq> []"
  shows "woke_at (check_tasks tasks) \<noteq> []
    \<and> last (woke_at (check_tasks tasks)) \<in> done_at ` set tasks
    \<and> (\<forall>t \<in> set tasks. done_at t < last (woke_at (check_tasks tasks))
          \<longrightarrow> task_result t = Inr True)
    \<and> (outcome (check_tasks tasks) = Inr True \<longrightarrow>
          (\<forall>t \<in> set tasks. task_result t = Inr True
              \<and> done_at t \<le> last (woke_at (check_tasks tasks)))
        \<and> cancelled (check_tasks tasks) = [])
    \<and> (outcome (check_tasks tasks) = Inr False \<longrightarrow>
          (\<exists>t \<in> set tasks. task_result t = Inr False
              \<and> done_at t = last (woke_at (check_tasks tasks)))
        \<and> cancelled (check_tasks tasks)
            = map task_url (filter (\<lambda>t. last (woke_at (check_tasks tasks)) < done_at t) tasks))
    \<and> (\<forall>err. outcome (check_tasks tasks) = Inl err \<longrightarrow>
          (\<exists>t \<in> set tasks. task_result t = Inl err
              \<and> done_at t = last (woke_at (check_tasks tasks))))"
  using assms
proof (induction tasks rule: check_tasks.induct)
  case (1 created_tasks)
  define m where "m = first_completion created_tasks"
  define dn where "dn = filter (\<lambda>f. done_at f = m) created_tasks"
  define pd where "pd = filter (\<lambda>f. done_at f \<noteq> m) created_tasks"
  from "1.prems" have w: "asyncio_wait created_tasks = Inr (dn, pd)"
    by (simp add: asyncio_wait_def dn_def pd_def m_def)
  have m_le: "\<And>t. t \<in> set created_tasks \<Longrightarrow> m \<le> done_at t"
    unfolding m_def by (rule first_completion_le)
  from first_completion_in [OF "1.prems"] obtain t0 where
    t0: "t0 \<in> set created_tasks" "done_at t0 = m" by (auto simp: m_def)
  have pd_later: "pd = filter (\<lambda>t. m < done_at t) created_tasks"
    unfolding pd_def by (rule filter_cong) (use m_le in \<open>auto simp: order_less_le\<close>)
  have none_before: "\<forall>t \<in> set created_tasks. done_at t < m \<longrightarrow> task_result t = Inr True"
    using m_le by fastforce
  have dn_sub: "\<And>t. t \<in> set dn \<Longrightarrow> t \<in> set created_tasks \<and> done_at t = m"
    by (simp add: dn_def)
  consider (raises) err where "all_results_true dn = Inl err"
    | (fails) "all_results_true dn = Inr False"
    | (last_wave) "all_results_true dn = Inr True" "pd = []"
    | (more) "all_results_true dn = Inr True" "pd \<noteq> []"
    by (cases "all_results_true dn") auto
  then show ?case
  proof cases
    case raises
    then have run: "check_tasks created_tasks
        = \<lparr>outcome = Inl err, cancelled = [], woke_at = [m]\<rparr>"
      by (simp add: check_tasks.simps [of created_tasks] w m_def)
    from all_results_true_raises [OF raises] dn_sub
    have "\<exists>t \<in> set created_tasks. task_result t = Inl err \<and> done_at t = m" by blast
    with none_before t0 show ?thesis by (auto simp: run)
  next
    case fails
    then have run: "check_tasks created_tasks
        = \<lparr>outcome = Inr False, cancelled = map task_url pd, woke_at = [m]\<rparr>"
      by (simp add: check_tasks.simps [of created_tasks] w m_def)
    from all_results_true_False [OF fails] dn_sub
    have "\<exists>t \<in> set created_tasks. task_result t = Inr False \<and> done_at t = m" by blast
    with none_before t0 show ?thesis by (auto simp: run pd_later)
  next
    case last_wave
    then have run: "check_tasks created_tasks
        = \<lparr>outcome = Inr True, cancelled = [], woke_at = [m]\<rparr>"
      by (simp add: check_tasks.simps [of created_tasks] w m_def)
    from last_wave(2) have all_m: "\<forall>t \<in> set created_tasks. done_at t = m"
      by (auto simp: pd_def filter_empty_conv)
    then have "set dn = set created_tasks" by (auto simp: dn_def)
    with last_wave(1) have "\<forall>t \<in> set created_tasks. task_result t = Inr True"
      by (simp add: all_results_true_True)
    with all_m t0 show ?thesis by (auto simp: run)
  next
    case more
    let ?later = "check_tasks pd"
    from more have run: "check_tasks created_tasks = ?later\<lparr>woke_at := m # woke_at ?later\<rparr>"
      by (simp add: check_tasks.simps [of created_tasks] w m_def Let_def)
    have dn_true: "\<forall>t \<in> set dn. task_result t = Inr True"
      using more(1) by (simp add: all_results_true_True)
    from "1.IH" [OF w refl more(1) _ more(2) more(2)]
    have IH: "woke_at ?later \<noteq> []"
      "last (woke_at ?later) \<in> done_at ` set pd"
      "\<forall>t \<in> set pd. done_at t < last (woke_at ?later) \<longrightarrow> task_result t = Inr True"
      "outcome ?later = Inr True \<Longrightarrow>
        (\<forall>t \<in> set pd. task_result t = Inr True \<and> done_at t \<le> last (woke_at ?later))
      \<and> cancelled ?later = []"
      "outcome ?later = Inr False \<Longrightarrow>
        (\<exists>t \<in> set pd. task_result t = Inr False \<and> done_at t = last (woke_at ?later))
      \<and> cancelled ?later = map task_url (filter (\<lambda>t. last (woke_at ?later) < done_at t) pd)"
      "\<And>err. outcome ?later = Inl err \<Longrightarrow>
        (\<exists>t \<in> set pd. task_result t = Inl err \<and> done_at t = last (woke_at ?later))"
      by simp_all
    define T where "T = last (woke_at ?later)"
    have last_eq: "last (woke_at (check_tasks created_tasks)) = T"
      using IH(1) by (simp add: run T_def)
    from IH(2) have T_gt: "m < T"
      unfolding T_def pd_later by auto
    have split: "set created_tasks = set dn \<union> set pd" by (auto simp: dn_def pd_def)
    have dn_m: "\<And>t. t \<in> set dn \<Longrightarrow> done_at t = m" by (simp add: dn_def)
    have filt: "filter (\<lambda>t. T < done_at t) pd = filter (\<lambda>t. T < done_at t) created_tasks"
      unfolding pd_later using T_gt by (auto intro!: filter_cong)
    have c1: "woke_at (check_tasks created_tasks) \<noteq> []" by (simp add: run)
    have c2: "T \<in> done_at ` set created_tasks"
      using IH(2) unfolding T_def split by auto
    have c3: "\<forall>t \<in> set created_tasks. done_at t < T \<longrightarrow> task_result t = Inr True"
      using IH(3) dn_true unfolding T_def split by auto
    have c4: "(\<forall>t \<in> set created_tasks. task_result t = Inr True \<and> done_at t \<le> T)
        \<and> cancelled (check_tasks created_tasks) = []"
      if "outcome (check_tasks created_tasks) = Inr True"
    proof -
      from that have "outcome ?later = Inr True" by (simp add: run)
      from IH(4) [OF this] dn_true T_gt dn_m show ?thesis
        unfolding T_def [symmetric] split by (auto simp: run intro: less_imp_le)
    qed
    have c5: "(\<exists>t \<in> set created_tasks. task_result t = Inr False \<and> done_at t = T)
        \<and> cancelled (check_tasks created_tasks)
            = map task_url (filter (\<lambda>t. T < done_at t) created_tasks)"
      if "outcome (check_tasks created_tasks) = Inr False"
    proof -
      from that have "outcome ?later = Inr False" by (simp add: run)
      from IH(5) [OF this] show ?thesis
        unfolding T_def [symmetric] filt split by (auto simp: run)
    qed
    have c6: "\<exists>t \<in> set created_tasks. task_result t = Inl err \<and> done_at t = T"
      if "outcome (check_tasks created_tasks) = Inl err" for err
    proof -
      from that have "outcome ?later = Inl err" by (simp add: run)
      from IH(6) [OF this] show ?thesis
        unfolding T_def [symmetric] split by auto
    qed
    from c1 c2 c3 c4 c5 c6 show ?thesis unfolding last_eq by blast
  qed
qed

lemma cancelled_urls:
  "map task_url
     (filter (\<lambda>t. T < done_at t)
        (map (\<lambda>(check_url, url_info).
                \<lparr>task_url = check_url, done_at = finish check_url,
                 task_result = is_url_available check_url http_session True\<rparr>) d))
   = filter (\<lambda>u. T < finish u) (map fst d)"
  by (induction d) auto

text \<open>
  C4: a mirror that is not private, has a base URL and at least one candidate URL. A probe
  task is created for every candidate, and \<^verbatim>\<open>mirror_available\<close> ends at the last time it
  was resumed from \<^verbatim>\<open>asyncio.wait\<close>.

  If some probe returns \<open>False\<close>, and no probe ends with an exception before or together with
  the earliest such probe (every probe that raises finishes later than some probe that returns
  \<open>False\<close>), then the verdict is \<open>(name, False)\<close>; it is returned at the time at which the
  earliest failing probe finished, and the probes that finish later than that are exactly
  the ones that were cancelled: none of them was waited for.

  The verdict is \<open>(name, True)\<close> exactly if every probe returned \<open>True\<close>, and then it is
  returned when the last probe has finished, and nothing was cancelled.
\<close>

theorem fail_fast_aggregation:
  fixes g finish mirror_info http_session main_config
  defines "report \<equiv> mirror_available g finish mirror_info http_session main_config"
  assumes "\<not> is_private mirror_info"
    and "next_address (urls mirror_info) (required_protocols main_config) = Some mirror_url"
    and "enumerate_urls g mirror_info main_config mirror_url = Inr urls_for_checking"
    and "urls_for_checking \<noteq> []"
  shows "probed report = map fst urls_for_checking
    \<and> resumed_at report \<noteq> []
    \<and> ((\<exists>u \<in> set (probed report). is_url_available u http_session True = Inr False)
        \<and> (\<forall>u \<in> set (probed report). \<forall>err. is_url_available u http_session True = Inl err
              \<longrightarrow> (\<exists>f \<in> set (probed report).
                      is_url_available f http_session True = Inr False \<and> finish f < finish u))
        \<longrightarrow>
          verdict report = Inr (MirrorData.name mirror_info, False)
        \<and> (\<exists>u \<in> set (probed report). is_url_available u http_session True = Inr False
              \<and> finish u = last (resumed_at report))
        \<and> (\<forall>u \<in> set (probed report). is_url_available u http_session True = Inr False
              \<longrightarrow> last (resumed_at report) \<le> finish u)
        \<and> cancelled_probes report
            = filter (\<lambda>u. last (resumed_at report) < finish u) (probed report))
    \<and> (verdict report = Inr (MirrorData.name mirror_info, True) \<longleftrightarrow>
          (\<forall>u \<in> set (probed report). is_url_available u http_session True = Inr True))
    \<and> (verdict report = Inr (MirrorData.name mirror_info, True) \<longrightarrow>
          (\<forall>u \<in> set (probed report). finish u \<le> last (resumed_at report))
        \<and> cancelled_probes report = [])"
proof -
  define mk :: "string \<times> UrlInfo \<Rightarrow> Task" where "mk = (\<lambda>(check_url, url_info).
      \<lparr>task_url = check_url, done_at = finish check_url,
       task_result = is_url_available check_url http_session True\<rparr>)"
  define tasks where "tasks = map mk urls_for_checking"
  define run where "run = check_tasks tasks"
  define T where "T = last (woke_at run)"
  let ?name = "MirrorData.name mirror_info"
  let ?ok = "\<lambda>u. is_url_available u http_session True"
  have report: "report =
      \<lparr>verdict = (case outcome run of
                     Inl err \<Rightarrow> Inl err
                   | Inr result \<Rightarrow> (if \<not> result then Inr (?name, False) else Inr (?name, True))),
       probed = map task_url tasks, cancelled_probes = cancelled run, resumed_at = woke_at run\<rparr>"
    using assms(2,3,4)
    by (simp add: report_def mirror_available_def Let_def tasks_def mk_def run_def)
  have urls: "map task_url tasks = map fst urls_for_checking"
    by (simp add: tasks_def mk_def case_prod_unfold)
  have task_set: "set tasks = mk ` set urls_for_checking" by (simp add: tasks_def)
  have fields: "\<And>x. task_url (mk x) = fst x" "\<And>x. done_at (mk x) = finish (fst x)"
    "\<And>x. task_result (mk x) = ?ok (fst x)"
    by (simp_all add: mk_def case_prod_unfold)
  have ne: "tasks \<noteq> []" using assms(5) by (simp add: tasks_def)
  note R = check_tasks_run [OF ne, folded run_def, folded T_def]
  from R have before: "\<forall>t \<in> set tasks. done_at t < T \<longrightarrow> task_result t = Inr True"
    by blast
  have probed_set: "set (probed report) = fst ` set urls_for_checking"
    by (simp add: report urls)
  have cancelled_eq: "map task_url (filter (\<lambda>t. T < done_at t) tasks)
      = filter (\<lambda>u. T < finish u) (map fst urls_for_checking)"
    unfolding tasks_def mk_def by (rule cancelled_urls)
  have outcomes: "(\<exists>err. outcome run = Inl err) \<or> outcome run = Inr False \<or> outcome run = Inr True"
    by (cases "outcome run") auto
  have p1: "probed report = map fst urls_for_checking" by (simp add: report urls)
  have p2: "resumed_at report \<noteq> []" using R by (simp add: report)
  have last_eq: "last (resumed_at report) = T" by (simp add: report T_def)
  have not_before: "T \<le> finish u" if "u \<in> set (probed report)" "?ok u = Inr False" for u
  proof (rule ccontr)
    from that obtain y where y: "y \<in> set urls_for_checking" "u = fst y"
      by (auto simp: probed_set)
    assume "\<not> T \<le> finish u"
    then have "done_at (mk y) < T" using y by (simp add: fields)
    with before y have "task_result (mk y) = Inr True" by (auto simp: task_set)
    with that(2) y show False by (simp add: fields)
  qed
  have p3: "verdict report = Inr (?name, False)
        \<and> (\<exists>u \<in> set (probed report). ?ok u = Inr False \<and> finish u = T)
        \<and> (\<forall>u \<in> set (probed report). ?ok u = Inr False \<longrightarrow> T \<le> finish u)
        \<and> cancelled_probes report = filter (\<lambda>u. T < finish u) (probed report)"
    if some_false: "\<exists>u \<in> set (probed report). ?ok u = Inr False"
      and raise_later: "\<forall>u \<in> set (probed report). \<forall>err. ?ok u = Inl err
          \<longrightarrow> (\<exists>f \<in> set (probed report). ?ok f = Inr False \<and> finish f < finish u)"
  proof -
    from some_false obtain x where x: "x \<in> set urls_for_checking" "?ok (fst x) = Inr False"
      by (auto simp: probed_set)
    then have bad: "mk x \<in> set tasks" "task_result (mk x) = Inr False"
      by (auto simp: task_set fields)
    have not_true: "outcome run \<noteq> Inr True"
    proof
      assume "outcome run = Inr True"
      with R bad show False by auto
    qed
    have not_raised: "outcome run \<noteq> Inl err" for err
    proof
      assume "outcome run = Inl err"
      with R obtain t where "t \<in> set tasks" "task_result t = Inl err" "done_at t = T" by blast
      then obtain y where y: "y \<in> set urls_for_checking" "?ok (fst y) = Inl err"
        "finish (fst y) = T"
        by (auto simp: task_set fields)
      then have "fst y \<in> set (probed report)" by (auto simp: probed_set)
      with raise_later y(2) obtain f where
        f: "f \<in> set (probed report)" "?ok f = Inr False" "finish f < finish (fst y)"
        by blast
      from not_before [OF f(1,2)] f(3) y(3) show False by simp
    qed
    from outcomes not_true not_raised have out: "outcome run = Inr False" by blast
    with R have
      ex: "\<exists>t \<in> set tasks. task_result t = Inr False \<and> done_at t = T"
      and canc: "cancelled run = map task_url (filter (\<lambda>t. T < done_at t) tasks)"
      by blast+
    from ex have "\<exists>u \<in> set (probed report). ?ok u = Inr False \<and> finish u = T"
      by (auto simp: task_set fields probed_set)
    moreover have "\<forall>u \<in> set (probed report). ?ok u = Inr False \<longrightarrow> T \<le> finish u"
      using not_before by blast
    moreover have "verdict report = Inr (?name, False)" using out by (simp add: report)
    moreover have "cancelled_probes report = filter (\<lambda>u. T < finish u) (probed report)"
      using canc cancelled_eq by (simp add: report urls)
    ultimately show ?thesis by blast
  qed
  have p4: "verdict report = Inr (?name, True) \<longleftrightarrow>
      (\<forall>u \<in> set (probed report). ?ok u = Inr True)"
  proof
    assume "verdict report = Inr (?name, True)"
    then have "outcome run = Inr True"
      by (auto simp: report split: sum.splits if_splits)
    with R have "\<forall>t \<in> set tasks. task_result t = Inr True" by blast
    then show "\<forall>u \<in> set (probed report). ?ok u = Inr True"
      by (auto simp: task_set fields probed_set)
  next
    assume all: "\<forall>u \<in> set (probed report). ?ok u = Inr True"
    then have all_tasks: "\<forall>t \<in> set tasks. task_result t = Inr True"
      by (auto simp: task_set fields probed_set)
    have "outcome run \<noteq> Inr False"
    proof
      assume "outcome run = Inr False"
      with R obtain t where "t \<in> set tasks" "task_result t = Inr False" by blast
      with all_tasks show False by auto
    qed
    moreover have "outcome run \<noteq> Inl err" for err
    proof
      assume "outcome run = Inl err"
      with R obtain t where "t \<in> set tasks" "task_result t = Inl err" by blast
      with all_tasks show False by auto
    qed
    ultimately have "outcome run = Inr True" using outcomes by blast
    then show "verdict report = Inr (?name, True)" by (simp add: report)
  qed
  have p5: "(\<forall>u \<in> set (probed report). finish u \<le> T) \<and> cancelled_probes report = []"
    if "verdict report = Inr (?name, True)"
  proof -
    from that have "outcome run = Inr True"
      by (auto simp: report split: sum.splits if_splits)
    with R have "\<forall>t \<in> set tasks. done_at t \<le> T" "cancelled run = []" by blast+
    then show ?thesis by (auto simp: task_set fields probed_set report)
  qed
  from p1 p2 p3 p4 p5 show ?thesis unfolding last_eq by blast
qed

section \<open>Worked examples\<close>

lemma wide_enumeration:
  "enumerate_urls module_globals example_mirror wide_config ''https://example.org/almalinux''
     = Inr [(url_baseos_x86_64, \<lparr>version = ''9'', repo_path = ''BaseOS/x86_64/os''\<rparr>),
            (url_baseos_ppc64le, \<lparr>version = ''9'', repo_path = ''BaseOS/ppc64le/os''\<rparr>),
            (url_crb_x86_64, \<lparr>version = ''9'', repo_path = ''CRB/x86_64/os''\<rparr>),
            (url_crb_ppc64le, \<lparr>version = ''9'', repo_path = ''CRB/ppc64le/os''\<rparr>)]"
  by code_simp

lemma azure_enumeration:
  "enumerate_urls module_globals azure_mirror wide_config
       ''https://eastus.azure.repo.almalinux.org/almalinux''
     = Inr [(''https://eastus.azure.repo.almalinux.org/almalinux/9/BaseOS/x86_64/os/repodata/repomd.xml'',
             \<lparr>version = ''9'', repo_path = ''BaseOS/x86_64/os''\<rparr>)]"
  by code_simp

lemma example_urls_distinct:
  "distinct [url_baseos_x86_64, url_baseos_ppc64le, url_crb_x86_64, url_crb_ppc64le]"
  by (simp add: url_baseos_x86_64_def url_baseos_ppc64le_def url_crb_x86_64_def
        url_crb_ppc64le_def)

lemma mixed_results:
  "is_url_available url_baseos_x86_64 session_mixed True = Inr True"
  "is_url_available url_baseos_ppc64le session_mixed True = Inr True"
  "is_url_available url_crb_x86_64 session_mixed True = Inr False"
  "is_url_available url_crb_ppc64le session_mixed True = Inl (OtherException ''RuntimeError'')"
  using example_urls_distinct
  by (auto simp: is_url_available_def try_block_def session_mixed_def)

lemma arrival_times:
  "arrival url_baseos_x86_64 = 4" "arrival url_baseos_ppc64le = 1"
  "arrival url_crb_x86_64 = 2" "arrival url_crb_ppc64le = 3"
  using example_urls_distinct by (auto simp: arrival_def)


lemma whitelisted_mirror_down:
  "verdict (mirror_available module_globals (\<lambda>url. 0)
       (example_mirror\<lparr>MirrorData.name := ''repo.almalinux.org''\<rparr>) session_down example_config)
     = Inr (''repo.almalinux.org'', False)"
  by code_simp

text \<open>
  The mirror that \<open>WHITELIST_MIRRORS\<close> names is reported unavailable like any other when
  its probe fails, with the constant as declared and with the constant emptied.
\<close>

theorem verdict_ignores_WHITELIST_MIRRORS_witness:
  "verdict (mirror_available module_globals (\<lambda>url. 0)
       (example_mirror\<lparr>MirrorData.name := ''repo.almalinux.org''\<rparr>) session_down example_config)
     = Inr (''repo.almalinux.org'', False)
   \<and> verdict (mirror_available (module_globals\<lparr>WHITELIST_MIRRORS := []\<rparr>) (\<lambda>url. 0)
       (example_mirror\<lparr>MirrorData.name := ''repo.almalinux.org''\<rparr>) session_down example_config)
     = Inr (''repo.almalinux.org'', False)"
  using verdict_ignores_WHITELIST_MIRRORS
    [of module_globals "\<lambda>url. 0" "example_mirror\<lparr>MirrorData.name := ''repo.almalinux.org''\<rparr>"
        session_down example_config]
    whitelisted_mirror_down
  by simp

text \<open>
  For the Azure mirror of the table the configuration \<^const>\<open>wide_config\<close> yields one
  candidate, for \<open>BaseOS\<close> on \<open>x86_64\<close>; the same configuration yields four candidates for a
  mirror that the table does not name (\<open>wide_enumeration\<close>).
\<close>

theorem override_restricts_candidates_witness:
  "enumerate_urls module_globals azure_mirror wide_config
       ''https://eastus.azure.repo.almalinux.org/almalinux''
     = Inr [(''https://eastus.azure.repo.almalinux.org/almalinux/9/BaseOS/x86_64/os/repodata/repomd.xml'',
             \<lparr>version = ''9'', repo_path = ''BaseOS/x86_64/os''\<rparr>)]
   \<and> (\<exists>ver \<in> set (MainConfig.versions wide_config).
       \<exists>repo_data \<in> set (MainConfig.repos wide_config).
       \<exists>arch \<in> set (get_arches_for_version (RepoData.arches repo_data)
                       (MainConfig.arches wide_config)).
          RepoData.name repo_data \<in> set (WhitelistEntry.repos azure_entry)
        \<and> arch \<in> set (WhitelistEntry.arches azure_entry)
        \<and> candidate_of ''https://eastus.azure.repo.almalinux.org/almalinux'' ver repo_data arch
             (''https://eastus.azure.repo.almalinux.org/almalinux/9/BaseOS/x86_64/os/repodata/repomd.xml'',
              \<lparr>version = ''9'', repo_path = ''BaseOS/x86_64/os''\<rparr>))"
proof
  show "enumerate_urls module_globals azure_mirror wide_config
       ''https://eastus.azure.repo.almalinux.org/almalinux''
     = Inr [(''https://eastus.azure.repo.almalinux.org/almalinux/9/BaseOS/x86_64/os/repodata/repomd.xml'',
             \<lparr>version = ''9'', repo_path = ''BaseOS/x86_64/os''\<rparr>)]"
    by (rule azure_enumeration)
next
  have listed: "map_of (WHITELIST_MIRRORS_PER_ARCH_REPO module_globals)
      (MirrorData.name azure_mirror) = Some azure_entry"
    by (simp add: module_globals_def azure_mirror_def)
  show "\<exists>ver \<in> set (MainConfig.versions wide_config).
       \<exists>repo_data \<in> set (MainConfig.repos wide_config).
       \<exists>arch \<in> set (get_arches_for_version (RepoData.arches repo_data)
                       (MainConfig.arches wide_config)).
          RepoData.name repo_data \<in> set (WhitelistEntry.repos azure_entry)
        \<and> arch \<in> set (WhitelistEntry.arches azure_entry)
        \<and> candidate_of ''https://eastus.azure.repo.almalinux.org/almalinux'' ver repo_data arch
             (''https://eastus.azure.repo.almalinux.org/almalinux/9/BaseOS/x86_64/os/repodata/repomd.xml'',
              \<lparr>version = ''9'', repo_path = ''BaseOS/x86_64/os''\<rparr>)"
    by (rule override_restricts_candidates [OF listed azure_enumeration]) simp
qed

text \<open>
  Four probes, of which the one that finishes second times out and the one that would
  finish third would end with a \<open>RuntimeError\<close>: the verdict is \<open>False\<close>,
  \<^verbatim>\<open>mirror_available\<close> returns at time 2, and the two probes that would have finished at
  times 3 and 4 are cancelled.
\<close>

theorem fail_fast_aggregation_witness:
  "verdict (mirror_available module_globals arrival example_mirror session_mixed wide_config)
     = Inr (''mirror.example.org'', False)
   \<and> probed (mirror_available module_globals arrival example_mirror session_mixed wide_config)
     = [url_baseos_x86_64, url_baseos_ppc64le, url_crb_x86_64, url_crb_ppc64le]
   \<and> last (resumed_at
        (mirror_available module_globals arrival example_mirror session_mixed wide_config))
     = 2
   \<and> cancelled_probes
        (mirror_available module_globals arrival example_mirror session_mixed wide_config)
     = [url_baseos_x86_64, url_crb_ppc64le]"
proof -
  let ?report = "mirror_available module_globals arrival example_mirror session_mixed
      wide_config"
  let ?ok = "\<lambda>u. is_url_available u session_mixed True"
  let ?candidates =
    "[(url_baseos_x86_64, \<lparr>version = ''9'', repo_path = ''BaseOS/x86_64/os''\<rparr>),
      (url_baseos_ppc64le, \<lparr>version = ''9'', repo_path = ''BaseOS/ppc64le/os''\<rparr>),
      (url_crb_x86_64, \<lparr>version = ''9'', repo_path = ''CRB/x86_64/os''\<rparr>),
      (url_crb_ppc64le, \<lparr>version = ''9'', repo_path = ''CRB/ppc64le/os''\<rparr>)]"
  have public: "\<not> is_private example_mirror" by (simp add: example_mirror_def)
  have base: "next_address (urls example_mirror) (required_protocols wide_config)
      = Some ''https://example.org/almalinux''"
    by (simp add: example_mirror_def wide_config_def)
  have some: "?candidates \<noteq> []" by simp
  note F = fail_fast_aggregation [OF public base wide_enumeration some, of arrival session_mixed]
  from F have probed: "probed ?report
      = [url_baseos_x86_64, url_baseos_ppc64le, url_crb_x86_64, url_crb_ppc64le]"
    by simp
  have failing: "\<exists>u \<in> set (probed ?report). ?ok u = Inr False"
    by (simp add: probed mixed_results)
  have raise_later: "\<forall>u \<in> set (probed ?report). \<forall>err. ?ok u = Inl err
      \<longrightarrow> (\<exists>f \<in> set (probed ?report). ?ok f = Inr False \<and> arrival f < arrival u)"
    by (simp add: probed mixed_results arrival_times)
  with failing F have verdict: "verdict ?report = Inr (MirrorData.name example_mirror, False)"
    and at: "\<exists>u \<in> set (probed ?report). ?ok u = Inr False \<and> arrival u = last (resumed_at ?report)"
    and cancelled: "cancelled_probes ?report
        = filter (\<lambda>u. last (resumed_at ?report) < arrival u) (probed ?report)"
    by blast+
  from at have time: "last (resumed_at ?report) = 2"
    by (auto simp: probed mixed_results arrival_times)
  from cancelled have "cancelled_probes ?report = [url_baseos_x86_64, url_crb_ppc64le]"
    by (simp add: time probed arrival_times)
  with verdict probed time show ?thesis by (simp add: example_mirror_def)
qed

end
